theory Spec2Isabelle
  imports Complex_Main
begin

section \<open>Calendar and clock values\<close>

text \<open>
  The birthday scheduler of \<^verbatim>\<open>sandpiper/birthdays/cog.py\<close> computes with Python's
  \<^verbatim>\<open>datetime\<close> values. A \<^verbatim>\<open>date\<close> is represented by its proleptic Gregorian ordinal
  (\<^verbatim>\<open>date.toordinal()\<close>, 0001-01-01 is day 1), a \<^verbatim>\<open>timedelta\<close> by its number of
  microseconds, and a naive \<^verbatim>\<open>datetime\<close> by the microseconds of its wall-clock reading,
  counted so that midnight of the date with ordinal \<open>n\<close> is \<open>n * us_per_day\<close>.
  The fields of a date and the constructor follow CPython's \<^verbatim>\<open>_ord2ymd\<close>,
  \<^verbatim>\<open>_ymd2ord\<close> and \<^verbatim>\<open>_check_date_fields\<close>. The limits of the range of dates
  (\<^verbatim>\<open>date.min\<close> is day 1, \<^verbatim>\<open>date.max\<close> is day \<open>MAXORDINAL\<close>) are checked where a date
  is constructed from fields and where a date is moved by a timedelta; a
  \<^verbatim>\<open>timedelta\<close> made from a number of days checks that number as Python does. The
  arithmetic of datetimes is on unbounded integers.
\<close>

datatype error = ValueError | RuntimeError | HTTPException | OverflowError

text \<open>What comes after a value that may have been an exception instead.\<close>

definition and_then :: "error + 'a \<Rightarrow> ('a \<Rightarrow> error + 'b) \<Rightarrow> error + 'b" where
  "and_then r f = (case r of Inl e \<Rightarrow> Inl e | Inr x \<Rightarrow> f x)"

type_synonym date = int
type_synonym timedelta = int
type_synonym naive_datetime = int

definition us_per_day :: int where
  "us_per_day = 86400000000"

text \<open>\<^verbatim>\<open>dt.timedelta(days=n)\<close>: the magnitude of the days is at most 999999999.\<close>

definition timedelta_days :: "int \<Rightarrow> error + timedelta" where
  "timedelta_days n =
     (if - 999999999 \<le> n \<and> n \<le> 999999999 then Inr (n * us_per_day) else Inl OverflowError)"

definition timedelta_hours :: "int \<Rightarrow> timedelta" where
  "timedelta_hours n = n * 3600000000"

definition total_seconds :: "timedelta \<Rightarrow> rat" where
  "total_seconds d = of_int d / 1000000"

definition is_leap :: "int \<Rightarrow> bool" where
  "is_leap year = (year mod 4 = 0 \<and> (year mod 100 \<noteq> 0 \<or> year mod 400 = 0))"

definition days_before_year :: "int \<Rightarrow> int" where
  "days_before_year year =
     (let y = year - 1 in y * 365 + y div 4 - y div 100 + y div 400)"

definition DAYS_IN_MONTH :: "int list" where
  "DAYS_IN_MONTH = [-1, 31, 28, 31, 30, 31, 30, 31, 31, 30, 31, 30, 31]"

definition DAYS_BEFORE_MONTH :: "int list" where
  "DAYS_BEFORE_MONTH = [-1, 0, 31, 59, 90, 120, 151, 181, 212, 243, 273, 304, 334]"

definition days_in_month :: "int \<Rightarrow> int \<Rightarrow> int" where
  "days_in_month year month =
     (if month = 2 \<and> is_leap year then 29 else DAYS_IN_MONTH ! nat month)"

definition days_before_month :: "int \<Rightarrow> int \<Rightarrow> int" where
  "days_before_month year month =
     DAYS_BEFORE_MONTH ! nat month + (if month > 2 \<and> is_leap year then 1 else 0)"

definition ymd2ord :: "int \<Rightarrow> int \<Rightarrow> int \<Rightarrow> date" where
  "ymd2ord year month day =
     days_before_year year + days_before_month year month + day"

definition check_date_fields :: "int \<Rightarrow> int \<Rightarrow> int \<Rightarrow> bool" where
  "check_date_fields year month day =
     (1 \<le> year \<and> year \<le> 9999 \<and> 1 \<le> month \<and> month \<le> 12
      \<and> 1 \<le> day \<and> day \<le> days_in_month year month)"

definition ord2ymd :: "date \<Rightarrow> int \<times> int \<times> int" where
  "ord2ymd n0 =
     (let n = n0 - 1;
          n400 = n div 146097; n = n mod 146097;
          n100 = n div 36524; n = n mod 36524;
          n4 = n div 1461; n = n mod 1461;
          n1 = n div 365; n = n mod 365;
          year = n400 * 400 + 1 + n100 * 100 + n4 * 4 + n1
      in if n1 = 4 \<or> n100 = 4 then (year - 1, 12, 31)
         else
           let leapyear = (n1 = 3 \<and> (n4 \<noteq> 24 \<or> n100 = 3));
               month = (n + 50) div 32;
               preceding = DAYS_BEFORE_MONTH ! nat month
                             + (if month > 2 \<and> leapyear then 1 else 0)
           in if preceding > n
              then
                let month = month - 1;
                    preceding = preceding - (DAYS_IN_MONTH ! nat month
                                  + (if month = 2 \<and> leapyear then 1 else 0))
                in (year, month, n - preceding + 1)
              else (year, month, n - preceding + 1))"

definition date_year :: "date \<Rightarrow> int" where
  "date_year d = fst (ord2ymd d)"

definition date_month :: "date \<Rightarrow> int" where
  "date_month d = fst (snd (ord2ymd d))"

definition date_day :: "date \<Rightarrow> int" where
  "date_day d = snd (snd (ord2ymd d))"

text \<open>\<^verbatim>\<open>dt.datetime(year, month, day)\<close>: midnight of that date, or \<^verbatim>\<open>ValueError\<close>.\<close>

definition datetime_ymd :: "int \<Rightarrow> int \<Rightarrow> int \<Rightarrow> error + naive_datetime" where
  "datetime_ymd year month day =
     (if check_date_fields year month day
      then Inr (ymd2ord year month day * us_per_day)
      else Inl ValueError)"

definition naive_date :: "naive_datetime \<Rightarrow> date" where
  "naive_date w = w div us_per_day"

text \<open>
  An aware \<^verbatim>\<open>datetime\<close> carries its wall-clock reading and the UTC offset of its
  \<^verbatim>\<open>tzinfo\<close>. A pytz timezone is given by the two things the scheduler uses of it:
  the offset \<^verbatim>\<open>localize\<close> picks for a wall-clock reading, and the offset in force at a
  UTC instant, which \<^verbatim>\<open>astimezone\<close> (through \<^verbatim>\<open>fromutc\<close>) applies.
\<close>

record datetime =
  wall :: naive_datetime
  utcoffset :: timedelta

record tzinfo =
  offset_of_wall :: "naive_datetime \<Rightarrow> timedelta"
  offset_at_utc :: "int \<Rightarrow> timedelta"

definition UTC :: tzinfo where
  "UTC = \<lparr>offset_of_wall = (\<lambda>_. 0), offset_at_utc = (\<lambda>_. 0)\<rparr>"

definition fixed_offset :: "timedelta \<Rightarrow> tzinfo" where
  "fixed_offset off = \<lparr>offset_of_wall = (\<lambda>_. off), offset_at_utc = (\<lambda>_. off)\<rparr>"

definition instant :: "datetime \<Rightarrow> int" where
  "instant d = wall d - utcoffset d"

definition localize :: "tzinfo \<Rightarrow> naive_datetime \<Rightarrow> datetime" where
  "localize tz w = \<lparr>wall = w, utcoffset = offset_of_wall tz w\<rparr>"

definition astimezone :: "datetime \<Rightarrow> tzinfo \<Rightarrow> datetime" where
  "astimezone d tz =
     (let utc = instant d; off = offset_at_utc tz utc
      in \<lparr>wall = utc + off, utcoffset = off\<rparr>)"

definition datetime_diff :: "datetime \<Rightarrow> datetime \<Rightarrow> timedelta" where
  "datetime_diff a b = instant a - instant b"

definition datetime_minus :: "datetime \<Rightarrow> timedelta \<Rightarrow> datetime" where
  "datetime_minus d td = d\<lparr>wall := wall d - td\<rparr>"

definition datetime_date :: "datetime \<Rightarrow> date" where
  "datetime_date d = naive_date (wall d)"

text \<open>
  \<^verbatim>\<open>date + timedelta\<close> and \<^verbatim>\<open>date - timedelta\<close> move the ordinal by the whole days of
  the timedelta and raise \<^verbatim>\<open>OverflowError\<close> when the result is not a date.
\<close>

definition MAXORDINAL :: int where
  "MAXORDINAL = 3652059"

definition date_plus :: "date \<Rightarrow> timedelta \<Rightarrow> error + date" where
  "date_plus d td =
     (let n = d + td div us_per_day
      in if 0 < n \<and> n \<le> MAXORDINAL then Inr n else Inl OverflowError)"

definition date_minus :: "date \<Rightarrow> timedelta \<Rightarrow> error + date" where
  "date_minus d td =
     (let n = d - td div us_per_day
      in if 0 < n \<and> n \<le> MAXORDINAL then Inr n else Inl OverflowError)"


section \<open>The user directory, the gateway and the cog\<close>

type_synonym user_id = nat
type_synonym guild_id = nat
type_synonym channel_id = nat

text \<open>
  Modelled from the spec: the enumeration \<^verbatim>\<open>PrivacyType\<close> of \<^verbatim>\<open>sandpiper.user_data\<close>,
  which is not among the sources; the spec gives its two values.
\<close>

datatype PrivacyType = PRIVATE | PUBLIC

text \<open>
  Modelled from the spec: the \<^verbatim>\<open>Database\<close> of \<^verbatim>\<open>sandpiper.user_data\<close> (the spec's User
  Directory), which is not among the sources. Each getter the cog calls is a field.
  The range query is a parameter: \<open>birthdays_range\<close> is whatever the directory answers
  from its stored birthdays and last notification times for the three arguments the
  cog passes.
\<close>

record database =
  get_birthday :: "user_id \<rightharpoonup> date"
  get_timezone :: "user_id \<rightharpoonup> tzinfo"
  get_privacy_timezone :: "user_id \<Rightarrow> PrivacyType"
  get_privacy_birthday :: "user_id \<Rightarrow> PrivacyType"
  get_privacy_preferred_name :: "user_id \<Rightarrow> PrivacyType"
  get_privacy_age :: "user_id \<Rightarrow> PrivacyType"
  get_preferred_name :: "user_id \<rightharpoonup> string"
  get_age :: "user_id \<rightharpoonup> int"
  get_guild_birthday_channel :: "guild_id \<rightharpoonup> channel_id"
  last_birthday_notification :: "user_id \<rightharpoonup> naive_datetime"
  birthdays_range :: "(user_id \<rightharpoonup> date) \<Rightarrow> (user_id \<rightharpoonup> naive_datetime)
                        \<Rightarrow> date \<Rightarrow> date \<Rightarrow> datetime option \<Rightarrow> (user_id \<times> date) list"

definition get_birthdays_range ::
  "database \<Rightarrow> date \<Rightarrow> date \<Rightarrow> datetime option \<Rightarrow> (user_id \<times> date) list" where
  "get_birthdays_range db start end max_last_notification_time =
     birthdays_range db (get_birthday db) (last_birthday_notification db)
       start end max_last_notification_time"

definition set_last_birthday_notification ::
  "database \<Rightarrow> user_id \<Rightarrow> naive_datetime \<Rightarrow> database" where
  "set_last_birthday_notification db u t =
     db\<lparr>last_birthday_notification := (last_birthday_notification db)(u \<mapsto> t)\<rparr>"

text \<open>
  A birthday message: the text \<^verbatim>\<open>format_birthday_message\<close> makes of a template drawn
  from the pool that \<^verbatim>\<open>age is not None\<close> selects, for this user id, name and age. The
  draw and the formatting of the text are not modelled.
\<close>

datatype bday_msg = BdayMsg user_id "string option" "int option"

text \<open>
  The bot and its host. \<open>clock\<close> is the UTC instant the host's clock shows at its
  \<open>k\<close>-th reading and \<open>localzone\<close> is \<^verbatim>\<open>tzlocal.get_localzone()\<close>. \<open>get_user u\<close> is
  the list \<^verbatim>\<open>bot.get_user(u).mutual_guilds\<close>, or \<open>None\<close>; \<open>get_member g u\<close> is the
  display name of \<^verbatim>\<open>guild.get_member(u)\<close>, or \<open>None\<close>; \<open>get_channel c\<close> tells whether
  \<^verbatim>\<open>bot.get_channel(c)\<close> is a channel; \<open>send_ok c m\<close> tells whether
  \<^verbatim>\<open>channel.send(m)\<close> returns rather than raises.
\<close>

record bot =
  clock :: "nat \<Rightarrow> int"
  localzone :: tzinfo
  get_user :: "user_id \<rightharpoonup> guild_id list"
  get_member :: "guild_id \<Rightarrow> user_id \<rightharpoonup> string"
  get_channel :: "channel_id \<Rightarrow> bool"
  send_ok :: "channel_id \<Rightarrow> bday_msg \<Rightarrow> bool"

text \<open>
  An asyncio task made by \<^verbatim>\<open>_create_birthday_task\<close> runs
  \<^verbatim>\<open>send_birthday_message(user_id, midnight_delta)\<close>. It is pending until the event loop
  has run it to its end or it has been cancelled.
\<close>

datatype task_state = PENDING | CANCELLED | FINISHED "error option"

record asyncio_task =
  task_user :: user_id
  task_delta :: timedelta
  task_state :: task_state

text \<open>What the cog does to the outside, in the order it does it.\<close>

datatype effect =
    Sleep rat
  | Send channel_id bday_msg
  | GetBirthdaysRange date date "datetime option"
  | LogScheduled nat
  | LogError error

text \<open>
  The state: \<open>tasks\<close> is the dictionary \<^verbatim>\<open>self.tasks\<close>, whose values are handles
  (positions) into \<open>loop_tasks\<close>, the tasks created on \<^verbatim>\<open>bot.loop\<close>; \<open>user_data\<close> is
  the database behind \<^verbatim>\<open>bot.get_cog('UserData')\<close>, \<open>None\<close> when that cog is not loaded;
  \<open>ticks\<close> counts the readings of the clock so far.
\<close>

record cog =
  tasks :: "user_id \<rightharpoonup> nat"
  loop_tasks :: "asyncio_task list"
  user_data :: "database option"
  ticks :: nat
  effects :: "effect list"

definition emit :: "effect \<Rightarrow> cog \<Rightarrow> cog" where
  "emit e s = s\<lparr>effects := effects s @ [e]\<rparr>"

text \<open>\<^verbatim>\<open>dt.datetime.now()\<close> and \<^verbatim>\<open>utc_now()\<close> of \<^verbatim>\<open>sandpiper/common/time.py\<close>.\<close>

definition datetime_now :: "bot \<Rightarrow> cog \<Rightarrow> naive_datetime \<times> cog" where
  "datetime_now b s =
     (let t = clock b (ticks s)
      in (t + offset_at_utc (localzone b) t, s\<lparr>ticks := ticks s + 1\<rparr>))"

definition utc_now :: "bot \<Rightarrow> cog \<Rightarrow> datetime \<times> cog" where
  "utc_now b s =
     (let local_tz = localzone b; (w, s') = datetime_now b s
      in (localize local_tz w, s'))"

section \<open>The operations of the Birthdays cog\<close>

text \<open>
  Each method of the class \<^verbatim>\<open>Birthdays\<close> is a function from the state to a result and the
  state it leaves. A result is \<open>Inl\<close> of the exception raised or \<open>Inr\<close> of the value
  returned; the state beside an exception is the state at the raise. The methods
  \<^verbatim>\<open>_create_birthday_task\<close>, \<^verbatim>\<open>_get_database\<close>, \<^verbatim>\<open>_handle_task_exception\<close> and
  \<^verbatim>\<open>_try_cancel_task\<close> keep their names without the leading underscore. \<open>cancel\<close> is
  \<^verbatim>\<open>asyncio.Task.cancel\<close>, which leaves a task that is done as it is. The loops over
  the returned birthdays and over the guilds are \<open>schedule_each\<close> and \<open>send_each\<close>.
\<close>

definition cancel :: "nat \<Rightarrow> asyncio_task list \<Rightarrow> asyncio_task list" where
  "cancel h ts =
     (if h < length ts \<and> task_state (ts ! h) = PENDING
      then ts[h := (ts ! h)\<lparr>task_state := CANCELLED\<rparr>]
      else ts)"

definition create_birthday_task :: "user_id \<Rightarrow> timedelta \<Rightarrow> cog \<Rightarrow> cog" where
  "create_birthday_task u midnight_delta s =
     s\<lparr>tasks := (tasks s)(u \<mapsto> length (loop_tasks s)),
       loop_tasks := loop_tasks s
          @ [\<lparr>task_user = u, task_delta = midnight_delta, task_state = PENDING\<rparr>]\<rparr>"

definition get_database :: "cog \<Rightarrow> error + database" where
  "get_database s =
     (case user_data s of None \<Rightarrow> Inl RuntimeError | Some db \<Rightarrow> Inr db)"

definition handle_task_exception :: "error option \<Rightarrow> cog \<Rightarrow> cog" where
  "handle_task_exception r s =
     (case r of None \<Rightarrow> s | Some e \<Rightarrow> emit (LogError e) s)"

definition try_cancel_task :: "user_id \<Rightarrow> cog \<Rightarrow> cog" where
  "try_cancel_task u s =
     (case tasks s u of
        None \<Rightarrow> s
      | Some h \<Rightarrow> s\<lparr>tasks := (tasks s)(u := None),
                    loop_tasks := cancel h (loop_tasks s)\<rparr>)"

definition schedule_birthday ::
  "bot \<Rightarrow> user_id \<Rightarrow> date \<Rightarrow> datetime option \<Rightarrow> cog \<Rightarrow> (error + bool) \<times> cog" where
  "schedule_birthday b u birthday now_arg s =
     (case get_database s of
        Inl e \<Rightarrow> (Inl e, s)
      | Inr db \<Rightarrow>
          let (now, s) = (case now_arg of None \<Rightarrow> utc_now b s | Some n \<Rightarrow> (n, s));
              today = datetime_date now;
              s = try_cancel_task u s;
              timezone = (if get_privacy_timezone db u = PUBLIC
                          then get_timezone db u else None);
              timezone = (case timezone of None \<Rightarrow> UTC | Some tz \<Rightarrow> tz)
          in case datetime_ymd (date_year today) (date_month birthday) (date_day birthday) of
               Inl e \<Rightarrow> (Inl e, s)
             | Inr birthday_this_year \<Rightarrow>
                 let midnight_local = localize timezone birthday_this_year;
                     midnight_utc = astimezone midnight_local UTC;
                     midnight_delta = datetime_diff midnight_utc now
                 in if 0 \<le> midnight_delta \<and> midnight_delta < timedelta_hours 24
                    then (Inr True, create_birthday_task u midnight_delta s)
                    else
                      let now_local = astimezone now timezone
                      in if midnight_delta < 0
                            \<and> datetime_date now_local = naive_date birthday_this_year
                         then (Inr True, create_birthday_task u midnight_delta s)
                         else (Inr False, s))"

text \<open>
  \<^verbatim>\<open>schedule_birthday\<close> is a coroutine: after \<^verbatim>\<open>_try_cancel_task\<close> it awaits the
  directory (\<^verbatim>\<open>db.get_privacy_timezone\<close>, \<^verbatim>\<open>db.get_timezone\<close>), and while it waits the
  event loop runs other coroutines. \<open>schedule_birthday_begin\<close> is the call up to these
  awaits and gives the \<^verbatim>\<open>now\<close> it goes on with; \<open>schedule_birthday_finish\<close> is the
  call from the answers of the directory on, for the directory \<open>db\<close> as it is when the
  call resumes. Nothing of the cog is locked in between.
\<close>

definition schedule_birthday_begin ::
  "bot \<Rightarrow> user_id \<Rightarrow> datetime option \<Rightarrow> cog \<Rightarrow> (error + datetime) \<times> cog" where
  "schedule_birthday_begin b u now_arg s =
     (case get_database s of
        Inl e \<Rightarrow> (Inl e, s)
      | Inr db \<Rightarrow>
          let (now, s) = (case now_arg of None \<Rightarrow> utc_now b s | Some n \<Rightarrow> (n, s));
              s = try_cancel_task u s
          in (Inr now, s))"

definition schedule_birthday_finish ::
  "database \<Rightarrow> user_id \<Rightarrow> date \<Rightarrow> datetime \<Rightarrow> cog \<Rightarrow> (error + bool) \<times> cog" where
  "schedule_birthday_finish db u birthday now s =
     (let today = datetime_date now;
          timezone = (if get_privacy_timezone db u = PUBLIC
                      then get_timezone db u else None);
          timezone = (case timezone of None \<Rightarrow> UTC | Some tz \<Rightarrow> tz)
      in case datetime_ymd (date_year today) (date_month birthday) (date_day birthday) of
           Inl e \<Rightarrow> (Inl e, s)
         | Inr birthday_this_year \<Rightarrow>
             let midnight_local = localize timezone birthday_this_year;
                 midnight_utc = astimezone midnight_local UTC;
                 midnight_delta = datetime_diff midnight_utc now
             in if 0 \<le> midnight_delta \<and> midnight_delta < timedelta_hours 24
                then (Inr True, create_birthday_task u midnight_delta s)
                else
                  let now_local = astimezone now timezone
                  in if midnight_delta < 0
                        \<and> datetime_date now_local = naive_date birthday_this_year
                     then (Inr True, create_birthday_task u midnight_delta s)
                     else (Inr False, s))"

fun schedule_each ::
  "bot \<Rightarrow> datetime \<Rightarrow> (user_id \<times> date) list \<Rightarrow> nat \<Rightarrow> cog \<Rightarrow> (error + nat) \<times> cog" where
  "schedule_each b now [] scheduled_count s = (Inr scheduled_count, s)"
| "schedule_each b now ((u, birthday) # rest) scheduled_count s =
     (case schedule_birthday b u birthday (Some now) s of
        (Inl e, s') \<Rightarrow> (Inl e, s')
      | (Inr r, s') \<Rightarrow>
          schedule_each b now rest
            (if r then scheduled_count + 1 else scheduled_count) s')"

definition schedule_todays_birthdays :: "bot \<Rightarrow> cog \<Rightarrow> (error + unit) \<times> cog" where
  "schedule_todays_birthdays b s =
     (case get_database s of
        Inl e \<Rightarrow> (Inl e, s)
      | Inr db \<Rightarrow>
          let (now, s) = utc_now b s;
              today = datetime_date now
          in case and_then (timedelta_days 1) (\<lambda>one_day.
                  and_then (date_minus today one_day) (\<lambda>start.
                  and_then (timedelta_days 1) (\<lambda>one_day.
                  and_then (date_plus today one_day) (\<lambda>stop. Inr (start, stop))))) of
               Inl e \<Rightarrow> (Inl e, s)
             | Inr (start, stop) \<Rightarrow>
                 let max_last = Some (datetime_minus now (timedelta_hours 24));
                     s = emit (GetBirthdaysRange start stop max_last) s;
                     birthdays_today_tomorrow = get_birthdays_range db start stop max_last
                 in case schedule_each b now birthdays_today_tomorrow 0 s of
                      (Inl e, s') \<Rightarrow> (Inl e, s')
                    | (Inr scheduled_count, s') \<Rightarrow>
                        (Inr (), emit (LogScheduled scheduled_count) s'))"

definition daily_loop_error :: "error \<Rightarrow> cog \<Rightarrow> cog" where
  "daily_loop_error exc s = emit (LogError exc) s"

text \<open>
  One iteration of \<^verbatim>\<open>daily_loop\<close>: the body, and the error handler the task loop calls
  when the body raises.
\<close>

definition daily_loop :: "bot \<Rightarrow> cog \<Rightarrow> cog" where
  "daily_loop b s =
     (case schedule_todays_birthdays b s of
        (Inl exc, s') \<Rightarrow> daily_loop_error exc s'
      | (Inr _, s') \<Rightarrow> s')"

fun send_each ::
  "bot \<Rightarrow> database \<Rightarrow> user_id \<Rightarrow> bool \<Rightarrow> int option \<Rightarrow> guild_id list
     \<Rightarrow> string option \<Rightarrow> cog \<Rightarrow> (error + unit) \<times> cog" where
  "send_each b db u has_preferred_name age [] name s = (Inr (), s)"
| "send_each b db u has_preferred_name age (guild # rest) name s =
     (case get_member b guild u of
        None \<Rightarrow> send_each b db u has_preferred_name age rest name s
      | Some display_name \<Rightarrow>
          (case get_guild_birthday_channel db guild of
             None \<Rightarrow> send_each b db u has_preferred_name age rest name s
           | Some bday_channel_id \<Rightarrow>
               if \<not> get_channel b bday_channel_id
               then send_each b db u has_preferred_name age rest name s
               else
                 let name = (if \<not> has_preferred_name then Some display_name else name);
                     bday_msg = BdayMsg u name age
                 in if send_ok b bday_channel_id bday_msg
                    then send_each b db u has_preferred_name age rest name
                           (emit (Send bday_channel_id bday_msg) s)
                    else (Inl HTTPException, s)))"

definition send_birthday_message ::
  "bot \<Rightarrow> user_id \<Rightarrow> timedelta \<Rightarrow> cog \<Rightarrow> (error + unit) \<times> cog" where
  "send_birthday_message b u delta s =
     (let s = emit (Sleep (total_seconds delta)) s
      in case get_database s of
           Inl e \<Rightarrow> (Inl e, s)
         | Inr db \<Rightarrow>
             (case get_user b u of
                None \<Rightarrow> (Inr (), s)
              | Some guilds \<Rightarrow>
                  let name = (if get_privacy_preferred_name db u = PUBLIC
                              then get_preferred_name db u else None);
                      has_preferred_name = (name \<noteq> None);
                      age = (if get_privacy_age db u = PUBLIC then get_age db u else None)
                  in case send_each b db u has_preferred_name age guilds name s of
                       (Inl e, s') \<Rightarrow> (Inl e, s')
                     | (Inr _, s') \<Rightarrow>
                         let (t, s') = datetime_now b s'
                         in (Inr (),
                             s'\<lparr>user_data :=
                                  Some (set_last_birthday_notification db u t)\<rparr>)))"

text \<open>
  The event loop runs the pending task with handle \<open>h\<close> to its end; its done callback is
  \<^verbatim>\<open>_handle_task_exception\<close>. A task that is not pending is not run.
\<close>

definition run_task :: "bot \<Rightarrow> nat \<Rightarrow> cog \<Rightarrow> cog" where
  "run_task b h s =
     (if h < length (loop_tasks s) \<and> task_state (loop_tasks s ! h) = PENDING
      then
        let t = loop_tasks s ! h;
            (r, s') = send_birthday_message b (task_user t) (task_delta t) s;
            exc = (case r of Inl e \<Rightarrow> Some e | Inr _ \<Rightarrow> None)
        in handle_task_exception exc
             (s'\<lparr>loop_tasks := (loop_tasks s')[h := t\<lparr>task_state := FINISHED exc\<rparr>]\<rparr>)
      else s)"

definition get_past_upcoming_birthdays ::
  "bot \<Rightarrow> int \<Rightarrow> int \<Rightarrow> cog
     \<Rightarrow> (error + (user_id \<times> date) list \<times> (user_id \<times> date) list) \<times> cog" where
  "get_past_upcoming_birthdays b past_birthdays_day_range upcoming_birthdays_day_range s =
     (case get_database s of
        Inl e \<Rightarrow> (Inl e, s)
      | Inr db \<Rightarrow>
          let (now, s) = utc_now b s;
              today = datetime_date now
          in case and_then (timedelta_days past_birthdays_day_range) (\<lambda>past_delta.
                  and_then (timedelta_days upcoming_birthdays_day_range) (\<lambda>upcoming_delta.
                  and_then (date_minus today past_delta) (\<lambda>past_start.
                    Inr (upcoming_delta, past_start)))) of
               Inl e \<Rightarrow> (Inl e, s)
             | Inr (upcoming_delta, past_start) \<Rightarrow>
                 let s = emit (GetBirthdaysRange past_start today None) s;
                     past_birthdays = get_birthdays_range db past_start today None
                 in case and_then (timedelta_days 1) (\<lambda>one_day.
                         and_then (date_plus today one_day) (\<lambda>upcoming_start.
                         and_then (date_plus today upcoming_delta) (\<lambda>upcoming_stop.
                           Inr (upcoming_start, upcoming_stop)))) of
                      Inl e \<Rightarrow> (Inl e, s)
                    | Inr (upcoming_start, upcoming_stop) \<Rightarrow>
                        let s = emit (GetBirthdaysRange upcoming_start upcoming_stop None) s;
                            upcoming_birthdays =
                              get_birthdays_range db upcoming_start upcoming_stop None
                        in (Inr (past_birthdays, upcoming_birthdays), s))"

definition notify_change :: "bot \<Rightarrow> user_id \<Rightarrow> cog \<Rightarrow> (error + unit) \<times> cog" where
  "notify_change b u s =
     (case get_database s of
        Inl e \<Rightarrow> (Inl e, s)
      | Inr db \<Rightarrow>
          let birthday_privacy = get_privacy_birthday db u
          in case get_birthday db u of
               None \<Rightarrow> (Inr (), try_cancel_task u s)
             | Some birthday \<Rightarrow>
                 if birthday_privacy = PRIVATE
                 then (Inr (), try_cancel_task u s)
                 else
                   (case schedule_birthday b u birthday None s of
                      (Inl e, s') \<Rightarrow> (Inl e, s')
                    | (Inr _, s') \<Rightarrow> (Inr (), s')))"

section \<open>Live tasks and the registry invariant\<close>

definition live :: "cog \<Rightarrow> nat \<Rightarrow> bool" where
  "live s h = (h < length (loop_tasks s) \<and> task_state (loop_tasks s ! h) = PENDING)"

definition live_tasks :: "cog \<Rightarrow> user_id \<Rightarrow> nat list" where
  "live_tasks s u =
     filter (\<lambda>h. task_user (loop_tasks s ! h) = u \<and> task_state (loop_tasks s ! h) = PENDING)
       [0..<length (loop_tasks s)]"

text \<open>
  Every pending task of the loop is the one \<^verbatim>\<open>self.tasks\<close> holds for its user. Calls
  that run one after the other keep this; calls that overlap need not.
\<close>

definition registry_inv :: "cog \<Rightarrow> bool" where
  "registry_inv s =
     (\<forall>h<length (loop_tasks s).
        task_state (loop_tasks s ! h) = PENDING
          \<longrightarrow> tasks s (task_user (loop_tasks s ! h)) = Some h)"

text \<open>
  A call of \<^verbatim>\<open>schedule_birthday\<close> that waits for the directory: its user, its birthday
  and its \<^verbatim>\<open>now\<close>.
\<close>

record suspended_call =
  call_user :: user_id
  call_birthday :: date
  call_now :: datetime

text \<open>
  The states the cog can be in, each with the calls of \<^verbatim>\<open>schedule_birthday\<close> that are
  waiting for the directory. \<^verbatim>\<open>__init__\<close> starts with no task. A call of
  \<^verbatim>\<open>schedule_birthday\<close> (made by the rescan, by \<^verbatim>\<open>notify_change\<close> or by another caller)
  begins, and at any later moment one of the waiting calls resumes and finishes, for
  the directory as it then is; other calls may begin and finish in between. The cancel
  of \<^verbatim>\<open>notify_change\<close>, the run of a task by the loop, a reading of the clock, an
  effect on the outside and a change of the directory are steps of their own.
\<close>

inductive reachable :: "bot \<Rightarrow> cog \<Rightarrow> suspended_call list \<Rightarrow> bool" for b :: bot where
  init: "tasks s = Map.empty \<Longrightarrow> loop_tasks s = [] \<Longrightarrow> reachable b s []"
| begins: "reachable b s cs \<Longrightarrow> schedule_birthday_begin b u now_arg s = (Inr now, s') \<Longrightarrow>
     reachable b s' (\<lparr>call_user = u, call_birthday = birthday, call_now = now\<rparr> # cs)"
| finishes: "reachable b s cs \<Longrightarrow> c \<in> set cs \<Longrightarrow> user_data s = Some db \<Longrightarrow>
     reachable b
       (snd (schedule_birthday_finish db (call_user c) (call_birthday c) (call_now c) s))
       (remove1 c cs)"
| cancel: "reachable b s cs \<Longrightarrow> reachable b (try_cancel_task u s) cs"
| run: "reachable b s cs \<Longrightarrow> reachable b (run_task b h s) cs"
| clock: "reachable b s cs \<Longrightarrow> reachable b (snd (utc_now b s)) cs"
| outside: "reachable b s cs \<Longrightarrow> reachable b (emit e s) cs"
| directory: "reachable b s cs \<Longrightarrow> reachable b (s\<lparr>user_data := d\<rparr>) cs"

fun sleeps :: "effect list \<Rightarrow> rat list" where
  "sleeps [] = []"
| "sleeps (Sleep d # es) = d # sleeps es"
| "sleeps (_ # es) = sleeps es"

fun sends :: "effect list \<Rightarrow> (channel_id \<times> bday_msg) list" where
  "sends [] = []"
| "sends (Send c m # es) = (c, m) # sends es"
| "sends (_ # es) = sends es"

fun queries :: "effect list \<Rightarrow> (date \<times> date \<times> datetime option) list" where
  "queries [] = []"
| "queries (GetBirthdaysRange x y z # es) = (x, y, z) # queries es"
| "queries (_ # es) = queries es"

definition new_effects :: "cog \<Rightarrow> cog \<Rightarrow> effect list" where
  "new_effects s s' = drop (length (effects s)) (effects s')"

text \<open>
  What a call of \<^verbatim>\<open>schedule_birthday\<close> can be observed to do: its result, the registry
  and the tasks of the loop with their waits.
\<close>

definition outcome ::
  "(error + bool) \<times> cog \<Rightarrow> (error + bool) \<times> (user_id \<rightharpoonup> nat) \<times> asyncio_task list" where
  "outcome rs = (fst rs, tasks (snd rs), loop_tasks (snd rs))"


text \<open>The dates a range query of the directory asks for.\<close>

definition covers :: "date \<times> date \<times> datetime option \<Rightarrow> date \<Rightarrow> bool" where
  "covers q d = (fst q \<le> d \<and> d \<le> fst (snd q))"

text \<open>The last notification time the directory holds for a user.\<close>

definition last_notified :: "cog \<Rightarrow> user_id \<Rightarrow> naive_datetime option" where
  "last_notified s u =
     (case user_data s of None \<Rightarrow> None | Some db \<Rightarrow> last_birthday_notification db u)"

text \<open>
  A guild is eligible for a user's message when the user is a member of it, it has a
  birthday channel configured and that channel resolves.
\<close>

definition eligible :: "bot \<Rightarrow> database \<Rightarrow> user_id \<Rightarrow> guild_id \<Rightarrow> bool" where
  "eligible b db u g =
     (get_member b g u \<noteq> None
      \<and> (case get_guild_birthday_channel db g of None \<Rightarrow> False | Some c \<Rightarrow> get_channel b c))"

section \<open>A concrete deployment\<close>

text \<open>
  Concrete values on which the theorems below are evaluated. The host's clock shows
  \<open>t\<close> at its first reading and one second more at each further reading. User 1 was
  born on 2000-02-29 (ordinal 730179), user 2 on 1990-03-02 (ordinal 726528). User 1 is
  a member of guild 10, whose birthday channel is channel 100; user 2 is a member of
  guild 11, which has no birthday channel; user 3 shares no guild with the bot.
  The instant \<open>noon_2021_03_01\<close> is 2021-03-01T12:00 UTC (ordinal 737850).
\<close>

definition example_bot :: "tzinfo \<Rightarrow> int \<Rightarrow> bot" where
  "example_bot tz t =
     \<lparr>clock = (\<lambda>k. t + int k * 1000000),
      localzone = tz,
      get_user = [1 \<mapsto> [10], 2 \<mapsto> [11]],
      get_member = (\<lambda>g u. if g = 10 \<and> u = 1 then Some ''Member One''
                           else if g = 11 \<and> u = 2 then Some ''Member Two''
                           else None),
      get_channel = (\<lambda>c. c = 100),
      send_ok = (\<lambda>c m. True)\<rparr>"

definition example_db :: database where
  "example_db =
     \<lparr>get_birthday = [1 \<mapsto> 730179, 2 \<mapsto> 726528],
      get_timezone = Map.empty,
      get_privacy_timezone = (\<lambda>_. PUBLIC),
      get_privacy_birthday = (\<lambda>_. PUBLIC),
      get_privacy_preferred_name = (\<lambda>_. PUBLIC),
      get_privacy_age = (\<lambda>_. PUBLIC),
      get_preferred_name = Map.empty,
      get_age = Map.empty,
      get_guild_birthday_channel = [10 \<mapsto> 100],
      last_birthday_notification = Map.empty,
      birthdays_range = (\<lambda>birthdays notified start end max_last.
                           [(1, 730179), (2, 726528)])\<rparr>"

definition example_cog :: "database \<Rightarrow> cog" where
  "example_cog db =
     \<lparr>tasks = Map.empty, loop_tasks = [], user_data = Some db, ticks = 0, effects = []\<rparr>"

definition noon_2021_03_01 :: int where
  "noon_2021_03_01 = 737850 * 86400000000 + 12 * 3600000000"

definition example_now :: datetime where
  "example_now = \<lparr>wall = noon_2021_03_01, utcoffset = 0\<rparr>"

text \<open>
  Two calls of \<^verbatim>\<open>notify_change\<close> for user 2 that overlap, from 2021-03-01T12:00 UTC on
  (the user changes two settings one after the other). Each finds the birthday
  1990-03-02 public and calls \<^verbatim>\<open>schedule_birthday\<close> with no \<^verbatim>\<open>now\<close>. The first call
  reads the clock, cancels nothing and waits for the directory; the second does the
  same a second later; the first resumes and creates task 0; the second resumes and
  creates task 1.
\<close>

definition race_state :: cog where
  "race_state =
     (let b = example_bot UTC noon_2021_03_01
      in case schedule_birthday_begin b 2 None (example_cog example_db) of
           (Inl e, s1) \<Rightarrow> s1
         | (Inr now1, s1) \<Rightarrow>
             (case schedule_birthday_begin b 2 None s1 of
                (Inl e, s2) \<Rightarrow> s2
              | (Inr now2, s2) \<Rightarrow>
                  let s3 = snd (schedule_birthday_finish example_db 2 726528 now1 s2);
                      s4 = snd (schedule_birthday_finish example_db 2 726528 now2 s3)
                  in s4))"

text \<open>The directory after user 2 has made their birthday private.\<close>

definition private_db :: database where
  "private_db = example_db\<lparr>get_privacy_birthday := (get_privacy_birthday example_db)(2 := PRIVATE)\<rparr>"

text \<open>
  A host eight hours behind UTC, at the instant 2021-03-02T04:00 UTC, which its own
  clock shows as 2021-03-01T20:00.
\<close>

definition four_am_2021_03_02 :: int where
  "four_am_2021_03_02 = 737851 * 86400000000 + 4 * 3600000000"

definition pacific_bot :: bot where
  "pacific_bot = example_bot (fixed_offset (timedelta_hours (- 8))) four_am_2021_03_02"

section \<open>Basic facts\<close>

lemma ord2ymd_example: "ord2ymd 730179 = (2000, 2, 29)"
  by (simp add: ord2ymd_def Let_def DAYS_BEFORE_MONTH_def DAYS_IN_MONTH_def)

lemma and_then_simps [simp]:
  "and_then (Inl e) f = Inl e" "and_then (Inr x) f = f x"
  by (simp_all add: and_then_def)

lemma timedelta_days_one [simp]: "timedelta_days 1 = Inr us_per_day"
  by (simp add: timedelta_days_def)

lemma date_plus_days:
  "date_plus d (n * us_per_day)
     = (if 0 < d + n \<and> d + n \<le> MAXORDINAL then Inr (d + n) else Inl OverflowError)"
  by (simp add: date_plus_def us_per_day_def Let_def)

lemma date_minus_days:
  "date_minus d (n * us_per_day)
     = (if 0 < d - n \<and> d - n \<le> MAXORDINAL then Inr (d - n) else Inl OverflowError)"
  by (simp add: date_minus_def us_per_day_def Let_def)

lemma date_plus_one_day [simp]:
  "date_plus d us_per_day = (if 0 \<le> d \<and> d < MAXORDINAL then Inr (d + 1) else Inl OverflowError)"
  using date_plus_days [of d 1] by auto

lemma date_minus_one_day [simp]:
  "date_minus d us_per_day = (if 1 < d \<and> d \<le> MAXORDINAL + 1 then Inr (d - 1) else Inl OverflowError)"
  using date_minus_days [of d 1] by auto

text \<open>
  The three days of the rescan: the day before and the day after today are dates unless
  today is the first or the last date.
\<close>

lemma rescan_days:
  "and_then (timedelta_days 1) (\<lambda>one_day.
     and_then (date_minus today one_day) (\<lambda>start.
     and_then (timedelta_days 1) (\<lambda>one_day.
     and_then (date_plus today one_day) (\<lambda>stop. Inr (start, stop)))))
   = (if 1 < today \<and> today < MAXORDINAL then Inr (today - 1, today + 1) else Inl OverflowError)"
  by (auto simp: MAXORDINAL_def)

lemma effects_emit [simp]: "effects (emit e s) = effects s @ [e]"
  by (simp add: emit_def)

lemma emit_fields [simp]:
  "tasks (emit e s) = tasks s" "loop_tasks (emit e s) = loop_tasks s"
  "user_data (emit e s) = user_data s" "ticks (emit e s) = ticks s"
  by (simp_all add: emit_def)

lemma utc_now_fields [simp]:
  "tasks (snd (utc_now b s)) = tasks s" "loop_tasks (snd (utc_now b s)) = loop_tasks s"
  "user_data (snd (utc_now b s)) = user_data s" "ticks (snd (utc_now b s)) = ticks s + 1"
  "effects (snd (utc_now b s)) = effects s"
  by (simp_all add: utc_now_def datetime_now_def Let_def)

lemma get_past_upcoming:
  assumes "user_data s = Some db" and "today = datetime_date (fst (utc_now b s))"
    and "0 \<le> p" "0 \<le> q" "p < today" "today < MAXORDINAL" "today + q \<le> MAXORDINAL"
  shows "get_past_upcoming_birthdays b p q s =
      (Inr (get_birthdays_range db (today - p) today None,
            get_birthdays_range db (today + 1) (today + q) None),
       emit (GetBirthdaysRange (today + 1) (today + q) None)
         (emit (GetBirthdaysRange (today - p) today None) (snd (utc_now b s))))"
proof -
  have small: "p \<le> 999999999" "q \<le> 999999999"
    using assms(3-7) by (simp_all add: MAXORDINAL_def)
  have days: "timedelta_days p = Inr (p * us_per_day)" "timedelta_days q = Inr (q * us_per_day)"
    using small assms(3,4) by (simp_all add: timedelta_days_def)
  have start: "date_minus today (p * us_per_day) = Inr (today - p)"
    using assms(3-7) by (simp add: date_minus_days)
  have stop: "date_plus today (q * us_per_day) = Inr (today + q)"
    using assms(3-7) by (simp add: date_plus_days)
  have one: "date_plus today us_per_day = Inr (today + 1)"
    using assms(3-7) by simp
  show ?thesis
    using assms(1) one
    by (simp add: get_past_upcoming_birthdays_def get_database_def Let_def case_prod_beta
          assms(2) [symmetric] days start stop del: date_plus_one_day)
qed


lemma datetime_now_fields [simp]:
  "tasks (snd (datetime_now b s)) = tasks s" "loop_tasks (snd (datetime_now b s)) = loop_tasks s"
  "user_data (snd (datetime_now b s)) = user_data s" "ticks (snd (datetime_now b s)) = ticks s + 1"
  "effects (snd (datetime_now b s)) = effects s"
  by (simp_all add: datetime_now_def Let_def)

lemma try_cancel_task_fields [simp]:
  "user_data (try_cancel_task u s) = user_data s" "ticks (try_cancel_task u s) = ticks s"
  "effects (try_cancel_task u s) = effects s"
  "length (loop_tasks (try_cancel_task u s)) = length (loop_tasks s)"
  "tasks (try_cancel_task u s) = (tasks s)(u := None)"
  by (auto simp: try_cancel_task_def cancel_def split: option.splits)

lemma create_birthday_task_fields [simp]:
  "user_data (create_birthday_task u d s) = user_data s"
  "ticks (create_birthday_task u d s) = ticks s"
  "effects (create_birthday_task u d s) = effects s"
  "tasks (create_birthday_task u d s) = (tasks s)(u \<mapsto> length (loop_tasks s))"
  "loop_tasks (create_birthday_task u d s) =
     loop_tasks s @ [\<lparr>task_user = u, task_delta = d, task_state = PENDING\<rparr>]"
  by (simp_all add: create_birthday_task_def)

lemma cancel_nth:
  "i < length ts \<Longrightarrow>
   cancel h ts ! i = (if i = h \<and> task_state (ts ! i) = PENDING
                      then (ts ! i)\<lparr>task_state := CANCELLED\<rparr> else ts ! i)"
  by (auto simp: cancel_def)

lemma length_cancel [simp]: "length (cancel h ts) = length ts"
  by (simp add: cancel_def)

lemma try_cancel_task_nth:
  "i < length (loop_tasks s) \<Longrightarrow>
   loop_tasks (try_cancel_task u s) ! i =
     (if tasks s u = Some i \<and> task_state (loop_tasks s ! i) = PENDING
      then (loop_tasks s ! i)\<lparr>task_state := CANCELLED\<rparr> else loop_tasks s ! i)"
  by (auto simp: try_cancel_task_def cancel_nth split: option.splits)

lemma registry_inv_try_cancel_task:
  assumes "registry_inv s"
  shows "registry_inv (try_cancel_task u s)"
  using assms unfolding registry_inv_def
  by (auto simp: try_cancel_task_nth split: if_splits)

lemma no_live_after_cancel:
  assumes "registry_inv s"
  shows "live_tasks (try_cancel_task u s) u = []"
  using assms unfolding registry_inv_def live_tasks_def
  by (auto simp: try_cancel_task_nth filter_empty_conv split: if_splits)

lemma registry_inv_create:
  assumes "registry_inv s" "live_tasks s u = []"
  shows "registry_inv (create_birthday_task u d s)"
  using assms unfolding registry_inv_def live_tasks_def
  by (auto simp: nth_append filter_empty_conv less_Suc_eq)

lemma live_tasks_create:
  assumes "live_tasks s u = []"
  shows "live_tasks (create_birthday_task u d s) u = [length (loop_tasks s)]"
  using assms unfolding live_tasks_def
  by (auto simp: nth_append filter_empty_conv cong: filter_cong)

lemma at_most_one_live:
  assumes "registry_inv s"
  shows "length (live_tasks s u) \<le> 1"
proof -
  have d: "distinct (live_tasks s u)" by (simp add: live_tasks_def)
  have "set (live_tasks s u) \<subseteq> (case tasks s u of None \<Rightarrow> {} | Some h \<Rightarrow> {h})"
    using assms unfolding registry_inv_def live_tasks_def
    by (auto split: option.splits)
  then have "card (set (live_tasks s u)) \<le> 1"
  proof (cases "tasks s u")
    case None
    with \<open>set (live_tasks s u) \<subseteq> _\<close> show ?thesis by simp
  next
    case (Some h)
    with \<open>set (live_tasks s u) \<subseteq> _\<close> have "set (live_tasks s u) \<subseteq> {h}" by simp
    then have "card (set (live_tasks s u)) \<le> card {h}" by (intro card_mono) simp_all
    then show ?thesis by simp
  qed
  with d show ?thesis by (simp add: distinct_card)
qed

section \<open>The decision of the scheduler\<close>

text \<open>
  The decision of \<^verbatim>\<open>schedule_birthday\<close> once the database and \<^verbatim>\<open>now\<close> are known: the
  effective timezone, the delta to the localized midnight, and the test of the two
  qualifying cases.
\<close>

lemma schedule_birthday_decision:
  assumes db: "user_data s = Some db"
  shows "schedule_birthday b u birthday (Some now) s =
     (let timezone = (if get_privacy_timezone db u = PUBLIC
                      then (case get_timezone db u of None \<Rightarrow> UTC | Some tz \<Rightarrow> tz)
                      else UTC)
      in case datetime_ymd (date_year (datetime_date now)) (date_month birthday) (date_day birthday) of
           Inl e \<Rightarrow> (Inl e, try_cancel_task u s)
         | Inr birthday_this_year \<Rightarrow>
             let delta = datetime_diff (astimezone (localize timezone birthday_this_year) UTC) now
             in if (0 \<le> delta \<and> delta < timedelta_hours 24)
                   \<or> (delta < 0 \<and> datetime_date (astimezone now timezone)
                                       = naive_date birthday_this_year)
                then (Inr True, create_birthday_task u delta (try_cancel_task u s))
                else (Inr False, try_cancel_task u s))"
  using db
  by (auto simp: schedule_birthday_def get_database_def Let_def split: sum.splits option.splits)

lemma schedule_birthday_None:
  assumes db: "user_data s = Some db"
  shows "schedule_birthday b u birthday None s =
           schedule_birthday b u birthday (Some (fst (utc_now b s))) (snd (utc_now b s))"
  using db
  by (simp add: schedule_birthday_def get_database_def split: prod.splits)

lemma schedule_birthday_no_database:
  assumes "user_data s = None"
  shows "schedule_birthday b u birthday now s = (Inl RuntimeError, s)"
  using assms by (simp add: schedule_birthday_def get_database_def)

lemma schedule_birthday_shape:
  obtains (unloaded) "user_data s = None"
      "schedule_birthday b u birthday now s = (Inl RuntimeError, s)"
  | (raised) s0 where "s0 = s \<or> s0 = snd (utc_now b s)"
      "schedule_birthday b u birthday now s = (Inl ValueError, try_cancel_task u s0)"
  | (skipped) s0 where "s0 = s \<or> s0 = snd (utc_now b s)"
      "schedule_birthday b u birthday now s = (Inr False, try_cancel_task u s0)"
  | (scheduled) s0 d where "s0 = s \<or> s0 = snd (utc_now b s)"
      "schedule_birthday b u birthday now s
         = (Inr True, create_birthday_task u d (try_cancel_task u s0))"
proof (cases "user_data s")
  case None
  then show ?thesis using unloaded schedule_birthday_no_database by blast
next
  case (Some db)
  define s0 where "s0 = (case now of None \<Rightarrow> snd (utc_now b s) | Some _ \<Rightarrow> s)"
  define n where "n = (case now of None \<Rightarrow> fst (utc_now b s) | Some n \<Rightarrow> n)"
  have s0: "s0 = s \<or> s0 = snd (utc_now b s)"
    by (simp add: s0_def split: option.splits)
  have db0: "user_data s0 = Some db"
    using Some by (simp add: s0_def split: option.splits)
  have eq: "schedule_birthday b u birthday now s = schedule_birthday b u birthday (Some n) s0"
    using Some by (cases now) (simp_all add: s0_def n_def schedule_birthday_None)
  have "schedule_birthday b u birthday (Some n) s0 = (Inl ValueError, try_cancel_task u s0)
      \<or> schedule_birthday b u birthday (Some n) s0 = (Inr False, try_cancel_task u s0)
      \<or> (\<exists>d. schedule_birthday b u birthday (Some n) s0
                = (Inr True, create_birthday_task u d (try_cancel_task u s0)))"
    unfolding schedule_birthday_decision [OF db0] datetime_ymd_def Let_def
    by auto
  then show ?thesis
    using s0 raised [of s0] skipped [of s0] scheduled [of s0] unfolding eq by blast
qed

section \<open>The registry invariant is kept\<close>

lemma registry_inv_cong:
  "tasks s' = tasks s \<Longrightarrow> loop_tasks s' = loop_tasks s \<Longrightarrow> registry_inv s' = registry_inv s"
  by (simp add: registry_inv_def)

lemma live_tasks_cong:
  "loop_tasks s' = loop_tasks s \<Longrightarrow> live_tasks s' u = live_tasks s u"
  by (simp add: live_tasks_def)

lemma registry_inv_utc_now [simp]: "registry_inv (snd (utc_now b s)) = registry_inv s"
  by (rule registry_inv_cong) simp_all

lemma registry_inv_emit [simp]: "registry_inv (emit e s) = registry_inv s"
  by (rule registry_inv_cong) simp_all

lemma registry_inv_schedule_birthday:
  assumes "registry_inv s"
  shows "registry_inv (snd (schedule_birthday b u birthday now s))"
proof (cases rule: schedule_birthday_shape [where b=b and u=u and birthday=birthday and now=now and s=s])
  case unloaded
  then show ?thesis using assms by simp
next
  case (raised s0)
  then have "registry_inv s0" using assms by auto
  then show ?thesis using raised by (simp add: registry_inv_try_cancel_task)
next
  case (skipped s0)
  then have "registry_inv s0" using assms by auto
  then show ?thesis using skipped by (simp add: registry_inv_try_cancel_task)
next
  case (scheduled s0 d)
  then have "registry_inv s0" using assms by auto
  then show ?thesis
    using scheduled
    by (simp add: registry_inv_try_cancel_task registry_inv_create no_live_after_cancel)
qed

lemma scheduled_one_live:
  assumes "registry_inv s" "fst (schedule_birthday b u birthday now s) = Inr True"
  shows "length (live_tasks (snd (schedule_birthday b u birthday now s)) u) = 1"
proof (cases rule: schedule_birthday_shape [where b=b and u=u and birthday=birthday and now=now and s=s])
  case (scheduled s0 d)
  then have "registry_inv s0" using assms by auto
  then show ?thesis
    using scheduled by (simp add: live_tasks_create no_live_after_cancel)
qed (use assms in auto)

lemma not_scheduled_no_live:
  assumes "registry_inv s" "user_data s \<noteq> None"
    "fst (schedule_birthday b u birthday now s) \<noteq> Inr True"
  shows "live_tasks (snd (schedule_birthday b u birthday now s)) u = []"
proof (cases rule: schedule_birthday_shape [where b=b and u=u and birthday=birthday and now=now and s=s])
  case unloaded
  then show ?thesis using assms by simp
next
  case (raised s0)
  then have "registry_inv s0" using assms by auto
  then show ?thesis using raised by (simp add: no_live_after_cancel)
next
  case (skipped s0)
  then have "registry_inv s0" using assms by auto
  then show ?thesis using skipped by (simp add: no_live_after_cancel)
next
  case (scheduled s0 d)
  then show ?thesis using assms by simp
qed

lemma registry_inv_notify_change:
  assumes "registry_inv s"
  shows "registry_inv (snd (notify_change b u s))"
proof -
  have "snd (notify_change b u s) = s \<or> snd (notify_change b u s) = try_cancel_task u s
     \<or> (\<exists>birthday. snd (notify_change b u s) = snd (schedule_birthday b u birthday None s))"
    by (auto simp: notify_change_def Let_def split: sum.splits option.splits prod.splits)
       (metis snd_conv)+
  then show ?thesis
    using assms registry_inv_schedule_birthday [OF assms, of b u _ None]
      registry_inv_try_cancel_task [OF assms, of u]
    by auto
qed

lemma registry_inv_schedule_each:
  assumes "registry_inv s"
  shows "registry_inv (snd (schedule_each b now xs c s))"
  using assms
proof (induction xs arbitrary: c s)
  case Nil
  then show ?case by simp
next
  case (Cons x xs)
  obtain u birthday where x: "x = (u, birthday)" by (cases x)
  obtain r s' where r: "schedule_birthday b u birthday (Some now) s = (r, s')"
    by (cases "schedule_birthday b u birthday (Some now) s")
  have inv': "registry_inv s'"
    using registry_inv_schedule_birthday [OF Cons.prems, of b u birthday "Some now"] r by simp
  show ?case
    using Cons.IH [OF inv'] inv' r x by (cases r) simp_all
qed

lemma schedule_todays_birthdays_unfold:
  assumes "user_data s = Some db" and "now = fst (utc_now b s)"
    and "1 < datetime_date now" "datetime_date now < MAXORDINAL"
  shows "schedule_todays_birthdays b s =
     (let today = datetime_date now;
          max_last = Some (datetime_minus now (timedelta_hours 24));
          s1 = emit (GetBirthdaysRange (today - 1) (today + 1) max_last) (snd (utc_now b s))
      in case schedule_each b now (get_birthdays_range db (today - 1) (today + 1) max_last) 0 s1 of
           (Inl e, s') \<Rightarrow> (Inl e, s')
         | (Inr scheduled_count, s') \<Rightarrow> (Inr (), emit (LogScheduled scheduled_count) s'))"
proof -
  obtain s0 where u: "utc_now b s = (now, s0)"
    using assms(2) by (cases "utc_now b s") simp
  obtain r s2 where r: "schedule_each b now
      (get_birthdays_range db (datetime_date now - 1) (datetime_date now + 1)
         (Some (datetime_minus now (timedelta_hours 24)))) 0
      (emit (GetBirthdaysRange (datetime_date now - 1) (datetime_date now + 1)
         (Some (datetime_minus now (timedelta_hours 24)))) s0) = (r, s2)"
    by (cases "schedule_each b now
      (get_birthdays_range db (datetime_date now - 1) (datetime_date now + 1)
         (Some (datetime_minus now (timedelta_hours 24)))) 0
      (emit (GetBirthdaysRange (datetime_date now - 1) (datetime_date now + 1)
         (Some (datetime_minus now (timedelta_hours 24)))) s0)")
  show ?thesis
    using assms(1,3,4) u r
    by (simp add: schedule_todays_birthdays_def get_database_def Let_def rescan_days)
qed

text \<open>
  When today is the first or the last date, the pass raises \<^verbatim>\<open>OverflowError\<close> before it
  asks the directory anything.
\<close>

lemma schedule_todays_birthdays_overflow:
  assumes "user_data s = Some db" and "now = fst (utc_now b s)"
    and "\<not> (1 < datetime_date now \<and> datetime_date now < MAXORDINAL)"
  shows "schedule_todays_birthdays b s = (Inl OverflowError, snd (utc_now b s))"
proof -
  obtain s0 where u: "utc_now b s = (now, s0)"
    using assms(2) by (cases "utc_now b s") simp
  show ?thesis
    using assms(1,3) u
    by (simp add: schedule_todays_birthdays_def get_database_def Let_def rescan_days)
qed

lemma registry_inv_schedule_todays_birthdays:
  assumes "registry_inv s"
  shows "registry_inv (snd (schedule_todays_birthdays b s))"
proof (cases "user_data s")
  case None
  then show ?thesis using assms by (simp add: schedule_todays_birthdays_def get_database_def)
next
  case (Some db)
  define now where "now = fst (utc_now b s)"
  show ?thesis
  proof (cases "1 < datetime_date now \<and> datetime_date now < MAXORDINAL")
    case False
    then show ?thesis
      using assms schedule_todays_birthdays_overflow [OF Some now_def] by simp
  next
    case True
    define s1 where "s1 = emit (GetBirthdaysRange (datetime_date now - 1) (datetime_date now + 1)
        (Some (datetime_minus now (timedelta_hours 24)))) (snd (utc_now b s))"
    define xs where "xs = get_birthdays_range db (datetime_date now - 1) (datetime_date now + 1)
        (Some (datetime_minus now (timedelta_hours 24)))"
    have inv1: "registry_inv s1" using assms by (simp add: s1_def)
    have "registry_inv (snd (schedule_each b now xs 0 s1))"
      by (rule registry_inv_schedule_each [OF inv1])
    then show ?thesis
      using True
      by (auto simp: schedule_todays_birthdays_unfold [OF Some now_def] Let_def s1_def xs_def
               split: prod.splits sum.splits)
  qed
qed

lemma registry_inv_daily_loop:
  assumes "registry_inv s"
  shows "registry_inv (daily_loop b s)"
  using registry_inv_schedule_todays_birthdays [OF assms, of b]
  by (auto simp: daily_loop_def daily_loop_error_def split: prod.splits sum.splits)

section \<open>The notification sender\<close>

lemma send_each_Cons:
  obtains (skip) "send_each b db u hpn age (guild # rest) name s
                    = send_each b db u hpn age rest name s"
  | (sent) c name' where
      "send_each b db u hpn age (guild # rest) name s
         = send_each b db u hpn age rest name' (emit (Send c (BdayMsg u name' age)) s)"
  | (failed) "send_each b db u hpn age (guild # rest) name s = (Inl HTTPException, s)"
proof (cases "get_member b guild u")
  case None
  then show ?thesis using skip by simp
next
  case member: (Some display_name)
  show ?thesis
  proof (cases "get_guild_birthday_channel db guild")
    case None
    then show ?thesis using skip member by simp
  next
    case (Some c)
    show ?thesis
    proof (cases "get_channel b c")
      case False
      then show ?thesis using skip member Some by simp
    next
      case True
      define name' where "name' = (if \<not> hpn then Some display_name else name)"
      show ?thesis
      proof (cases "send_ok b c (BdayMsg u name' age)")
        case False
        then show ?thesis using failed member Some True by (simp add: name'_def Let_def)
      next
        case ok: True
        then show ?thesis using sent [of name' c] member Some True
          by (simp add: name'_def Let_def)
      qed
    qed
  qed
qed

lemma send_each_fields [simp]:
  "tasks (snd (send_each b db u hpn age guilds name s)) = tasks s"
  "loop_tasks (snd (send_each b db u hpn age guilds name s)) = loop_tasks s"
  "user_data (snd (send_each b db u hpn age guilds name s)) = user_data s"
  "ticks (snd (send_each b db u hpn age guilds name s)) = ticks s"
proof (induction guilds arbitrary: name s)
  case Nil
  { case 1 show ?case by simp }
  { case 2 show ?case by simp }
  { case 3 show ?case by simp }
  { case 4 show ?case by simp }
next
  case (Cons guild rest)
  { case 1 show ?case
      by (cases rule: send_each_Cons [of b db u hpn age guild rest name s])
         (simp_all add: Cons.IH) }
  { case 2 show ?case
      by (cases rule: send_each_Cons [of b db u hpn age guild rest name s])
         (simp_all add: Cons.IH) }
  { case 3 show ?case
      by (cases rule: send_each_Cons [of b db u hpn age guild rest name s])
         (simp_all add: Cons.IH) }
  { case 4 show ?case
      by (cases rule: send_each_Cons [of b db u hpn age guild rest name s])
         (simp_all add: Cons.IH) }
qed

lemma sleeps_append [simp]: "sleeps (xs @ ys) = sleeps xs @ sleeps ys"
  by (induction xs rule: sleeps.induct) simp_all

lemma sends_append [simp]: "sends (xs @ ys) = sends xs @ sends ys"
  by (induction xs rule: sends.induct) simp_all

lemma queries_append [simp]: "queries (xs @ ys) = queries xs @ queries ys"
  by (induction xs rule: queries.induct) simp_all

lemma send_each_sleeps [simp]:
  "sleeps (effects (snd (send_each b db u hpn age guilds name s))) = sleeps (effects s)"
proof (induction guilds arbitrary: name s)
  case Nil
  show ?case by simp
next
  case (Cons guild rest)
  show ?case
    by (cases rule: send_each_Cons [of b db u hpn age guild rest name s])
       (simp_all add: Cons.IH)
qed

lemma send_each_queries [simp]:
  "queries (effects (snd (send_each b db u hpn age guilds name s))) = queries (effects s)"
proof (induction guilds arbitrary: name s)
  case Nil
  show ?case by simp
next
  case (Cons guild rest)
  show ?case
    by (cases rule: send_each_Cons [of b db u hpn age guild rest name s])
       (simp_all add: Cons.IH)
qed

lemma send_each_extends:
  "\<exists>es. effects (snd (send_each b db u hpn age guilds name s)) = effects s @ es"
proof (induction guilds arbitrary: name s)
  case Nil
  show ?case by simp
next
  case (Cons guild rest)
  show ?case
  proof (cases rule: send_each_Cons [of b db u hpn age guild rest name s])
    case skip
    then show ?thesis using Cons.IH by simp
  next
    case (sent c name')
    obtain es where
      "effects (snd (send_each b db u hpn age rest name' (emit (Send c (BdayMsg u name' age)) s)))
         = effects (emit (Send c (BdayMsg u name' age)) s) @ es"
      using Cons.IH by blast
    then show ?thesis using sent by simp
  next
    case failed
    then show ?thesis by simp
  qed
qed

lemma send_birthday_message_cases:
  fixes b u delta s
  defines "s1 \<equiv> emit (Sleep (total_seconds delta)) s"
  obtains (unloaded) "user_data s = None"
      "send_birthday_message b u delta s = (Inl RuntimeError, s1)"
  | (no_user) db where "user_data s = Some db" "get_user b u = None"
      "send_birthday_message b u delta s = (Inr (), s1)"
  | (failed) db guilds e s' where "user_data s = Some db" "get_user b u = Some guilds"
      "send_each b db u
         ((if get_privacy_preferred_name db u = PUBLIC then get_preferred_name db u else None)
            \<noteq> None)
         (if get_privacy_age db u = PUBLIC then get_age db u else None) guilds
         (if get_privacy_preferred_name db u = PUBLIC then get_preferred_name db u else None)
         s1 = (Inl e, s')"
      "send_birthday_message b u delta s = (Inl e, s')"
  | (recorded) db guilds s' where "user_data s = Some db" "get_user b u = Some guilds"
      "send_each b db u
         ((if get_privacy_preferred_name db u = PUBLIC then get_preferred_name db u else None)
            \<noteq> None)
         (if get_privacy_age db u = PUBLIC then get_age db u else None) guilds
         (if get_privacy_preferred_name db u = PUBLIC then get_preferred_name db u else None)
         s1 = (Inr (), s')"
      "send_birthday_message b u delta s =
         (Inr (), (snd (datetime_now b s'))\<lparr>user_data :=
            Some (set_last_birthday_notification db u (fst (datetime_now b s')))\<rparr>)"
proof (cases "user_data s")
  case None
  then show ?thesis
    using unloaded by (simp add: send_birthday_message_def get_database_def s1_def)
next
  case db: (Some db)
  show ?thesis
  proof (cases "get_user b u")
    case None
    then show ?thesis
      using no_user db by (simp add: send_birthday_message_def get_database_def s1_def)
  next
    case (Some guilds)
    define name where
      "name = (if get_privacy_preferred_name db u = PUBLIC then get_preferred_name db u else None)"
    define age where "age = (if get_privacy_age db u = PUBLIC then get_age db u else None)"
    obtain r s' where r: "send_each b db u (name \<noteq> None) age guilds name s1 = (r, s')"
      by (cases "send_each b db u (name \<noteq> None) age guilds name s1")
    show ?thesis
    proof (cases r)
      case (Inl e)
      have "send_birthday_message b u delta s = (Inl e, s')"
        using db Some r Inl
        by (simp add: send_birthday_message_def get_database_def s1_def name_def age_def)
      then show ?thesis
        using failed [OF db Some] r Inl unfolding name_def age_def by blast
    next
      case (Inr x)
      have "send_birthday_message b u delta s =
         (Inr (), (snd (datetime_now b s'))\<lparr>user_data :=
            Some (set_last_birthday_notification db u (fst (datetime_now b s')))\<rparr>)"
        using db Some r Inr
        by (simp add: send_birthday_message_def get_database_def s1_def name_def age_def
              split: prod.splits)
      then show ?thesis
        using recorded [OF db Some] r Inr unfolding name_def age_def by simp
    qed
  qed
qed

lemma snd_send_each_eq:
  "send_each b db u hpn age guilds name s = (r, s') \<Longrightarrow>
     tasks s' = tasks s \<and> loop_tasks s' = loop_tasks s \<and> user_data s' = user_data s
     \<and> ticks s' = ticks s \<and> sleeps (effects s') = sleeps (effects s)
     \<and> queries (effects s') = queries (effects s)"
  using send_each_fields [of b db u hpn age guilds name s]
    send_each_sleeps [of b db u hpn age guilds name s]
    send_each_queries [of b db u hpn age guilds name s]
  by simp

lemma send_birthday_message_fields [simp]:
  "tasks (snd (send_birthday_message b u delta s)) = tasks s"
  "loop_tasks (snd (send_birthday_message b u delta s)) = loop_tasks s"
proof -
  show "tasks (snd (send_birthday_message b u delta s)) = tasks s"
  proof (cases rule: send_birthday_message_cases [of s b u delta])
    case (failed db guilds e s')
    then show ?thesis using snd_send_each_eq [OF failed(3)] by simp
  next
    case (recorded db guilds s')
    then show ?thesis using snd_send_each_eq [OF recorded(3)] by simp
  qed simp_all
  show "loop_tasks (snd (send_birthday_message b u delta s)) = loop_tasks s"
  proof (cases rule: send_birthday_message_cases [of s b u delta])
    case (failed db guilds e s')
    then show ?thesis using snd_send_each_eq [OF failed(3)] by simp
  next
    case (recorded db guilds s')
    then show ?thesis using snd_send_each_eq [OF recorded(3)] by simp
  qed simp_all
qed

lemma handle_task_exception_fields [simp]:
  "tasks (handle_task_exception r s) = tasks s"
  "loop_tasks (handle_task_exception r s) = loop_tasks s"
  "user_data (handle_task_exception r s) = user_data s"
  by (simp_all add: handle_task_exception_def split: option.splits)

lemma tasks_run_task [simp]: "tasks (run_task b h s) = tasks s"
proof -
  have "tasks s' = tasks s"
    if "send_birthday_message b (task_user (loop_tasks s ! h)) (task_delta (loop_tasks s ! h)) s
          = (r, s')" for r s'
    using send_birthday_message_fields(1)
      [of b "task_user (loop_tasks s ! h)" "task_delta (loop_tasks s ! h)" s] that by simp
  then show ?thesis
    unfolding run_task_def Let_def
    by (cases "send_birthday_message b (task_user (loop_tasks s ! h))
                 (task_delta (loop_tasks s ! h)) s") simp
qed

lemma loop_tasks_run_task:
  "loop_tasks (run_task b h s) =
     (if h < length (loop_tasks s) \<and> task_state (loop_tasks s ! h) = PENDING
      then (loop_tasks s)[h := (loop_tasks s ! h)\<lparr>task_state :=
              FINISHED (case fst (send_birthday_message b (task_user (loop_tasks s ! h))
                                   (task_delta (loop_tasks s ! h)) s)
                        of Inl e \<Rightarrow> Some e | Inr _ \<Rightarrow> None)\<rparr>]
      else loop_tasks s)"
proof -
  have "loop_tasks s' = loop_tasks s"
    if "send_birthday_message b (task_user (loop_tasks s ! h)) (task_delta (loop_tasks s ! h)) s
          = (r, s')" for r s'
    using send_birthday_message_fields(2)
      [of b "task_user (loop_tasks s ! h)" "task_delta (loop_tasks s ! h)" s] that by simp
  then show ?thesis
    unfolding run_task_def Let_def
    by (cases "send_birthday_message b (task_user (loop_tasks s ! h))
                 (task_delta (loop_tasks s ! h)) s") simp
qed

lemma registry_inv_run_task:
  assumes "registry_inv s"
  shows "registry_inv (run_task b h s)"
  using assms unfolding registry_inv_def
  by (auto simp: loop_tasks_run_task nth_list_update)

lemma registry_inv_user_data [simp]: "registry_inv (s\<lparr>user_data := d\<rparr>) = registry_inv s"
  by (simp add: registry_inv_def)

section \<open>Past and upcoming birthdays\<close>

lemma new_effects_append [simp]: "effects s' = effects s @ es \<Longrightarrow> new_effects s s' = es"
  by (simp add: new_effects_def)

lemma example_cog_fields [simp]:
  "tasks (example_cog db) = Map.empty" "loop_tasks (example_cog db) = []"
  "user_data (example_cog db) = Some db" "ticks (example_cog db) = 0"
  "effects (example_cog db) = []"
  by (simp_all add: example_cog_def)

lemma example_bot_fields [simp]:
  "clock (example_bot tz t) k = t + int k * 1000000"
  "localzone (example_bot tz t) = tz"
  by (simp_all add: example_bot_def)

lemma example_today:
  "utc_now (example_bot UTC noon_2021_03_01) (example_cog db)
     = (\<lparr>wall = noon_2021_03_01, utcoffset = 0\<rparr>, (example_cog db)\<lparr>ticks := 1\<rparr>)"
  by (simp add: utc_now_def datetime_now_def localize_def UTC_def Let_def)

lemma date_noon_2021_03_01 [simp]: "naive_date noon_2021_03_01 = 737850"
  by (simp add: naive_date_def noon_2021_03_01_def us_per_day_def)

lemma ord2ymd_737850: "ord2ymd 737850 = (2021, 3, 1)"
  by (simp add: ord2ymd_def Let_def DAYS_BEFORE_MONTH_def DAYS_IN_MONTH_def)

lemma ord2ymd_738215: "ord2ymd 738215 = (2022, 3, 1)"
  by (simp add: ord2ymd_def Let_def DAYS_BEFORE_MONTH_def DAYS_IN_MONTH_def)




text \<open>
  The ranges are ranges of dates, not of days of the year: from \<open>u = 365\<close> on the
  upcoming range reaches the date of next year that has today's month and day.
\<close>

lemma upcoming_range_reaches_next_year:
  "queries (effects (snd (get_past_upcoming_birthdays (example_bot UTC noon_2021_03_01) 7 365
                            (example_cog example_db))))
     = [(737843, 737850, None), (737851, 738215, None)]
   \<and> covers (737851, 738215, None) 738215
   \<and> date_month 738215 = date_month 737850 \<and> date_day 738215 = date_day 737850"
proof -
  have db: "user_data (example_cog example_db) = Some example_db" by simp
  have today: "737850 = datetime_date (fst (utc_now (example_bot UTC noon_2021_03_01)
                                              (example_cog example_db)))"
    by (simp add: example_today datetime_date_def)
  have bounds: "(0::int) \<le> 7" "(0::int) \<le> 365" "(7::int) < 737850" "737850 < MAXORDINAL"
    "737850 + 365 \<le> MAXORDINAL"
    by (simp_all add: MAXORDINAL_def)
  show ?thesis
    by (simp add: get_past_upcoming [OF db today bounds] covers_def date_month_def date_day_def
          ord2ymd_737850 ord2ymd_738215)
qed

section \<open>The argument of the sleep\<close>

lemma send_birthday_message_effects:
  "\<exists>es. effects (snd (send_birthday_message b u delta s))
           = effects s @ Sleep (total_seconds delta) # es
        \<and> sleeps es = [] \<and> queries es = []"
proof -
  define s1 where "s1 = emit (Sleep (total_seconds delta)) s"
  have each: "\<exists>es. effects s' = effects s @ Sleep (total_seconds delta) # es
                 \<and> sleeps es = [] \<and> queries es = []"
    if h: "send_each b db u hpn age guilds name s1 = (r, s')" for db hpn age guilds name r s'
  proof -
    obtain es where es: "effects s' = effects s1 @ es"
      using send_each_extends [of b db u hpn age guilds name s1] h by auto
    have "sleeps (effects s') = sleeps (effects s1)" "queries (effects s') = queries (effects s1)"
      using snd_send_each_eq [OF h] by simp_all
    then have "sleeps es = []" "queries es = []" using es by simp_all
    then show ?thesis using es by (simp add: s1_def)
  qed
  show ?thesis
  proof (cases rule: send_birthday_message_cases [of s b u delta])
    case unloaded
    then show ?thesis by simp
  next
    case (no_user db)
    then show ?thesis by simp
  next
    case (failed db guilds e s')
    then show ?thesis using each [OF failed(3) [folded s1_def]] by simp
  next
    case (recorded db guilds s')
    then show ?thesis using each [OF recorded(3) [folded s1_def]] by simp
  qed
qed

text \<open>
  C8 (as stated): the duration handed to the sleep primitive is \<open>max(delta, 0)\<close>. For a
  delta of minus one hour the sender hands \<open>-3600\<close> seconds to \<^verbatim>\<open>asyncio.sleep\<close>, not
  \<open>0\<close>.
\<close>

theorem sleep_not_clamped_counterexample:
  "sleeps (effects (snd (send_birthday_message (example_bot UTC noon_2021_03_01) 1
                           (timedelta_hours (- 1)) (example_cog example_db)))) = [- 3600]
   \<and> total_seconds (max (timedelta_hours (- 1)) 0) = 0"
proof -
  obtain es where
    "effects (snd (send_birthday_message (example_bot UTC noon_2021_03_01) 1
                     (timedelta_hours (- 1)) (example_cog example_db)))
       = effects (example_cog example_db) @ Sleep (total_seconds (timedelta_hours (- 1))) # es"
    "sleeps es = []"
    using send_birthday_message_effects by blast
  then show ?thesis
    by (simp add: total_seconds_def timedelta_hours_def)
qed

text \<open>
  C8 (amended): the sender hands \<^verbatim>\<open>delta.total_seconds()\<close> itself to the sleep primitive,
  once, whatever its sign; the argument is negative exactly when the delta is. (The
  source relies on \<^verbatim>\<open>asyncio.sleep\<close> not waiting for a non-positive delay.)
\<close>

theorem sleep_argument_is_delta:
  "sleeps (new_effects s (snd (send_birthday_message b u delta s))) = [total_seconds delta]
   \<and> (total_seconds delta < 0) = (delta < 0)"
proof -
  obtain es where
    "effects (snd (send_birthday_message b u delta s))
       = effects s @ Sleep (total_seconds delta) # es" "sleeps es = []"
    using send_birthday_message_effects by blast
  then show ?thesis
    by (simp add: total_seconds_def)
qed

section \<open>Recording the last notification\<close>

lemma send_each_none_eligible:
  assumes "\<forall>g\<in>set guilds. \<not> eligible b db u g"
  shows "send_each b db u hpn age guilds name s = (Inr (), s)"
  using assms
proof (induction guilds)
  case Nil
  then show ?case by simp
next
  case (Cons g guilds)
  then have "\<not> eligible b db u g" and rest: "send_each b db u hpn age guilds name s = (Inr (), s)"
    by simp_all
  then show ?case
    by (auto simp: eligible_def split: option.splits)
qed

lemma last_notified_record [simp]:
  "last_notified (s\<lparr>user_data := Some (set_last_birthday_notification db u t)\<rparr>) u = Some t"
  by (simp add: last_notified_def set_last_birthday_notification_def)

lemma fst_datetime_now:
  "ticks s' = ticks s \<Longrightarrow> fst (datetime_now b s') = fst (datetime_now b s)"
  by (simp add: datetime_now_def Let_def)

text \<open>
  C5 (as stated): every execution of the sender that passes its suspension point
  records the last notification time. For user 3, whom \<^verbatim>\<open>bot.get_user\<close> does not
  resolve, the sender sleeps, returns normally and records nothing.
\<close>

theorem unresolved_user_not_recorded_counterexample:
  "fst (send_birthday_message (example_bot UTC noon_2021_03_01) 3 0 (example_cog example_db))
     = Inr ()
   \<and> sleeps (effects (snd (send_birthday_message (example_bot UTC noon_2021_03_01) 3 0
                              (example_cog example_db)))) = [0]
   \<and> last_notified (snd (send_birthday_message (example_bot UTC noon_2021_03_01) 3 0
                            (example_cog example_db))) 3 = None"
  by (simp add: send_birthday_message_def get_database_def example_bot_def example_db_def
        last_notified_def total_seconds_def)

text \<open>
  C5 (amended): when \<^verbatim>\<open>bot.get_user\<close> resolves the user and the iteration over the shared
  guilds ends without an exception, the sender records the reading of
  \<^verbatim>\<open>datetime.now()\<close> as the user's last notification time; this is so in particular when
  no guild is eligible (the user is not a member, no channel is configured, or the
  channel does not resolve, in every guild), where nothing is sent. When
  \<^verbatim>\<open>bot.get_user\<close> does not resolve the user, the sender returns after its sleep and
  leaves the directory as it was.
\<close>

theorem send_birthday_message_records:
  assumes "user_data s = Some db"
  shows "(get_user b u \<noteq> None \<and> fst (send_birthday_message b u delta s) = Inr ()
            \<longrightarrow> last_notified (snd (send_birthday_message b u delta s)) u
                  = Some (fst (datetime_now b s)))
       \<and> (\<forall>guilds. get_user b u = Some guilds \<and> (\<forall>g\<in>set guilds. \<not> eligible b db u g)
            \<longrightarrow> fst (send_birthday_message b u delta s) = Inr ()
                \<and> sends (new_effects s (snd (send_birthday_message b u delta s))) = []
                \<and> last_notified (snd (send_birthday_message b u delta s)) u
                  = Some (fst (datetime_now b s)))
       \<and> (get_user b u = None
            \<longrightarrow> fst (send_birthday_message b u delta s) = Inr ()
                \<and> user_data (snd (send_birthday_message b u delta s)) = user_data s)"
proof (cases rule: send_birthday_message_cases [of s b u delta])
  case unloaded
  then show ?thesis using assms by simp
next
  case (no_user db')
  then show ?thesis by simp
next
  case (failed db' guilds e s')
  then have db': "db' = db" using assms by simp
  have "\<not> (\<forall>g\<in>set guilds. \<not> eligible b db u g)"
  proof
    assume "\<forall>g\<in>set guilds. \<not> eligible b db u g"
    from send_each_none_eligible [OF this] failed(3) db' show False by simp
  qed
  then show ?thesis
    using failed by auto
next
  case (recorded db' guilds s')
  then have db': "db' = db" using assms by simp
  have t: "fst (datetime_now b s') = fst (datetime_now b s)"
    using snd_send_each_eq [OF recorded(3)] by (intro fst_datetime_now) simp
  have "s' = emit (Sleep (total_seconds delta)) s" if "\<forall>g\<in>set guilds. \<not> eligible b db u g"
    using send_each_none_eligible [OF that] recorded(3) db' by simp
  then show ?thesis
    using recorded t by (auto simp: new_effects_def)
qed

theorem send_birthday_message_records_witness:
  "user_data (example_cog example_db) = Some example_db
   \<and> get_user (example_bot UTC noon_2021_03_01) 2 = Some [11]
   \<and> \<not> eligible (example_bot UTC noon_2021_03_01) example_db 2 11
   \<and> fst (send_birthday_message (example_bot UTC noon_2021_03_01) 2 0 (example_cog example_db))
       = Inr ()
   \<and> sends (new_effects (example_cog example_db)
        (snd (send_birthday_message (example_bot UTC noon_2021_03_01) 2 0
               (example_cog example_db)))) = []
   \<and> last_notified (snd (send_birthday_message (example_bot UTC noon_2021_03_01) 2 0
                            (example_cog example_db))) 2 = Some noon_2021_03_01
   \<and> get_user (example_bot UTC noon_2021_03_01) 3 = None
   \<and> user_data (snd (send_birthday_message (example_bot UTC noon_2021_03_01) 3 0
                         (example_cog example_db))) = Some example_db"
proof -
  have db: "user_data (example_cog example_db) = Some example_db" by simp
  have u: "get_user (example_bot UTC noon_2021_03_01) 2 = Some [11]"
    "get_user (example_bot UTC noon_2021_03_01) 3 = None"
    by (simp_all add: example_bot_def)
  have e: "\<forall>g\<in>set [11]. \<not> eligible (example_bot UTC noon_2021_03_01) example_db 2 g"
    by (simp add: eligible_def example_db_def)
  have t: "fst (datetime_now (example_bot UTC noon_2021_03_01) (example_cog example_db))
             = noon_2021_03_01"
    by (simp add: datetime_now_def UTC_def)
  show ?thesis
    using send_birthday_message_records [OF db, of "example_bot UTC noon_2021_03_01" 2 0]
      send_birthday_message_records [OF db, of "example_bot UTC noon_2021_03_01" 3 0] u e
    unfolding t by simp
qed

section \<open>The concrete deployment, evaluated\<close>

lemma ord2ymd_726528: "ord2ymd 726528 = (1990, 3, 2)"
  by (simp add: ord2ymd_def Let_def DAYS_BEFORE_MONTH_def DAYS_IN_MONTH_def)

lemma datetime_ymd_2021_03_02: "datetime_ymd 2021 3 2 = Inr (737851 * us_per_day)"
  by (simp add: datetime_ymd_def check_date_fields_def days_in_month_def ymd2ord_def
        days_before_year_def days_before_month_def DAYS_BEFORE_MONTH_def DAYS_IN_MONTH_def
        is_leap_def Let_def)

lemma datetime_ymd_2021_02_29: "datetime_ymd 2021 2 29 = Inl ValueError"
  by (simp add: datetime_ymd_def check_date_fields_def days_in_month_def
        DAYS_IN_MONTH_def is_leap_def)

lemma example_schedule_user2:
  "schedule_birthday (example_bot UTC noon_2021_03_01) 2 726528 (Some example_now) (example_cog example_db)
     = (Inr True, create_birthday_task 2 (timedelta_hours 12) (example_cog example_db))"
  apply (simp add: schedule_birthday_decision [where db = example_db] example_now_def datetime_date_def
      date_year_def date_month_def date_day_def ord2ymd_737850 ord2ymd_726528
      datetime_ymd_2021_03_02)
  apply (simp add: example_db_def UTC_def localize_def astimezone_def datetime_diff_def instant_def
      timedelta_hours_def noon_2021_03_01_def us_per_day_def Let_def try_cancel_task_def
      example_cog_def)
  done

lemma example_schedule_user1:
  "schedule_birthday (example_bot UTC noon_2021_03_01) 1 730179 (Some example_now) s
     = (if user_data s = None then (Inl RuntimeError, s) else (Inl ValueError, try_cancel_task 1 s))"
  apply (cases "user_data s")
   apply (simp add: schedule_birthday_no_database)
  apply (simp add: schedule_birthday_decision example_now_def datetime_date_def
      date_year_def date_month_def date_day_def ord2ymd_737850 ord2ymd_example
      datetime_ymd_2021_02_29)
  done

section \<open>Completion of a task\<close>

lemma send_birthday_message_none_eligible:
  assumes "user_data s = Some db" "get_user b u = Some guilds"
    "\<forall>g\<in>set guilds. \<not> eligible b db u g"
  shows "fst (send_birthday_message b u delta s) = Inr ()"
proof (cases rule: send_birthday_message_cases [of s b u delta])
  case (failed db' guilds' e s')
  then have "db' = db" "guilds' = guilds" using assms by simp_all
  then show ?thesis
    using failed(3) send_each_none_eligible [OF assms(3)] by simp
qed (use assms in simp_all)

text \<open>
  C9 (as stated): once a user's task has run to completion the registry holds no entry
  for that user. User 2 is scheduled at 2021-03-01T12:00 UTC for the midnight twelve
  hours later; after the task has run to its end, \<^verbatim>\<open>self.tasks\<close> still maps user 2 to
  the finished task.
\<close>

theorem finished_task_still_registered_counterexample:
  "tasks (run_task (example_bot UTC noon_2021_03_01) 0
            (snd (schedule_birthday (example_bot UTC noon_2021_03_01) 2 726528
                    (Some example_now) (example_cog example_db)))) 2 = Some 0
   \<and> task_state (loop_tasks (run_task (example_bot UTC noon_2021_03_01) 0
            (snd (schedule_birthday (example_bot UTC noon_2021_03_01) 2 726528
                    (Some example_now) (example_cog example_db)))) ! 0) = FINISHED None"
proof -
  define s1 where "s1 = create_birthday_task 2 (timedelta_hours 12) (example_cog example_db)"
  have s1: "loop_tasks s1 = [\<lparr>task_user = 2, task_delta = timedelta_hours 12,
                               task_state = PENDING\<rparr>]"
    "tasks s1 2 = Some 0" "user_data s1 = Some example_db"
    by (simp_all add: s1_def)
  have u: "get_user (example_bot UTC noon_2021_03_01) 2 = Some [11]"
    by (simp add: example_bot_def)
  have e: "\<forall>g\<in>set [11]. \<not> eligible (example_bot UTC noon_2021_03_01) example_db 2 g"
    by (simp add: eligible_def example_db_def)
  have "fst (send_birthday_message (example_bot UTC noon_2021_03_01) 2 (timedelta_hours 12) s1)
          = Inr ()"
    by (rule send_birthday_message_none_eligible [OF s1(3) u e])
  then show ?thesis
    unfolding example_schedule_user2 s1_def [symmetric]
    by (simp add: loop_tasks_run_task s1)
qed

text \<open>
  C9 (amended): when a task runs to completion it stops being live, but the registry is
  left as it was: \<^verbatim>\<open>self.tasks\<close> keeps the entry of the finished task until a later
  cancel (by \<^verbatim>\<open>schedule_birthday\<close> or \<^verbatim>\<open>notify_change\<close>) for that user removes it.
\<close>

theorem run_task_keeps_registry:
  "tasks (run_task b h s) = tasks s
   \<and> \<not> live (run_task b h s) h
   \<and> (live s h \<longrightarrow> (\<exists>r. task_state (loop_tasks (run_task b h s) ! h) = FINISHED r))
   \<and> tasks (try_cancel_task u (run_task b h s)) u = None"
  by (auto simp: live_def loop_tasks_run_task)

theorem run_task_keeps_registry_witness:
  "live (create_birthday_task 2 (timedelta_hours 12) (example_cog example_db)) 0
   \<and> tasks (run_task (example_bot UTC noon_2021_03_01) 0
        (create_birthday_task 2 (timedelta_hours 12) (example_cog example_db))) 2 = Some 0
   \<and> (\<exists>r. task_state (loop_tasks (run_task (example_bot UTC noon_2021_03_01) 0
        (create_birthday_task 2 (timedelta_hours 12) (example_cog example_db))) ! 0)
          = FINISHED r)"
  using run_task_keeps_registry [of "example_bot UTC noon_2021_03_01" 0
      "create_birthday_task 2 (timedelta_hours 12) (example_cog example_db)" 2]
  by (simp add: live_def)

section \<open>An exception during the rescan\<close>

lemma schedule_each_append:
  "schedule_each b now (xs @ ys) c s =
     (case schedule_each b now xs c s of
        (Inl e, s') \<Rightarrow> (Inl e, s')
      | (Inr c', s') \<Rightarrow> schedule_each b now ys c' s')"
proof (induction xs arbitrary: c s)
  case Nil
  then show ?case by simp
next
  case (Cons x xs)
  obtain u birthday where x: "x = (u, birthday)" by (cases x)
  obtain r s' where r: "schedule_birthday b u birthday (Some now) s = (r, s')"
    by (cases "schedule_birthday b u birthday (Some now) s")
  show ?case
    using Cons.IH r x by (cases r) simp_all
qed

text \<open>
  C4 (as stated): an exception raised while scheduling one user of the batch does not
  keep the remaining users from being attempted and does not leave
  \<^verbatim>\<open>schedule_todays_birthdays\<close>. On 2021-03-01 the directory returns user 1 (born on
  February 29) and then user 2 (born on March 2): the \<^verbatim>\<open>ValueError\<close> raised for user 1
  leaves \<^verbatim>\<open>schedule_todays_birthdays\<close>, and user 2, who would be scheduled on their
  own, gets no task.
\<close>

theorem rescan_aborted_counterexample:
  "fst (schedule_todays_birthdays (example_bot UTC noon_2021_03_01) (example_cog example_db))
     = Inl ValueError
   \<and> tasks (snd (schedule_todays_birthdays (example_bot UTC noon_2021_03_01)
                    (example_cog example_db))) 2 = None
   \<and> loop_tasks (snd (schedule_todays_birthdays (example_bot UTC noon_2021_03_01)
                    (example_cog example_db))) = []
   \<and> fst (schedule_birthday (example_bot UTC noon_2021_03_01) 2 726528 (Some example_now)
            (example_cog example_db)) = Inr True"
proof -
  have q: "get_birthdays_range example_db x y z = [(1, 730179), (2, 726528)]" for x y z
    by (simp add: get_birthdays_range_def example_db_def)
  have db: "user_data (example_cog example_db) = Some example_db" by simp
  have now: "example_now
               = fst (utc_now (example_bot UTC noon_2021_03_01) (example_cog example_db))"
    by (simp add: example_today example_now_def)
  have today: "1 < datetime_date example_now" "datetime_date example_now < MAXORDINAL"
    by (simp_all add: example_now_def datetime_date_def MAXORDINAL_def)
  have u1: "schedule_birthday (example_bot UTC noon_2021_03_01) (Suc 0) 730179 (Some example_now) s
      = (if user_data s = None then (Inl RuntimeError, s) else (Inl ValueError, try_cancel_task 1 s))"
    for s using example_schedule_user1 [of s] by simp
  show ?thesis
    by (simp add: schedule_todays_birthdays_unfold [OF db now today] q Let_def
          u1 example_schedule_user2 try_cancel_task_def)
qed

text \<open>
  C4 (amended): an exception raised while scheduling one user of the batch is not caught
  inside the per-user iteration. It ends the pass: \<^verbatim>\<open>schedule_todays_birthdays\<close> raises
  it, in the state the failed attempt left, whatever users follow in the batch, so
  these are not attempted; the tasks of the users before it stay. Only the handler of
  the daily loop, \<^verbatim>\<open>daily_loop_error\<close>, receives the exception, and logs it. (The
  batch is the answer to the query of the pass, which is made when the day before and
  the day after today are dates.)
\<close>

theorem schedule_todays_birthdays_stops_at_exception:
  assumes "user_data s = Some db"
    and "now = fst (utc_now b s)"
    and "1 < datetime_date now" "datetime_date now < MAXORDINAL"
    and "get_birthdays_range db (datetime_date now - 1) (datetime_date now + 1)
           (Some (datetime_minus now (timedelta_hours 24))) = before @ (u, birthday) # rest"
    and "schedule_each b now before 0
           (emit (GetBirthdaysRange (datetime_date now - 1) (datetime_date now + 1)
                    (Some (datetime_minus now (timedelta_hours 24)))) (snd (utc_now b s)))
           = (Inr c, s1)"
    and "schedule_birthday b u birthday (Some now) s1 = (Inl e, s2)"
  shows "schedule_todays_birthdays b s = (Inl e, s2)
       \<and> daily_loop b s = emit (LogError e) s2"
  using assms(5-)
  by (simp add: schedule_todays_birthdays_unfold [OF assms(1-4)] Let_def schedule_each_append
        daily_loop_def daily_loop_error_def)

theorem schedule_todays_birthdays_stops_at_exception_witness:
  "user_data (example_cog example_db) = Some example_db
   \<and> 1 < datetime_date example_now \<and> datetime_date example_now < MAXORDINAL
   \<and> get_birthdays_range example_db (datetime_date example_now - 1) (datetime_date example_now + 1)
           (Some (datetime_minus example_now (timedelta_hours 24)))
         = [] @ (1, 730179) # [(2, 726528)]
   \<and> fst (schedule_todays_birthdays (example_bot UTC noon_2021_03_01) (example_cog example_db))
       = Inl ValueError
   \<and> effects (daily_loop (example_bot UTC noon_2021_03_01) (example_cog example_db))
       = [GetBirthdaysRange 737849 737851
            (Some \<lparr>wall = 737849 * 86400000000 + 12 * 3600000000, utcoffset = 0\<rparr>),
          LogError ValueError]"
proof -
  define b where "b = example_bot UTC noon_2021_03_01"
  define s where "s = example_cog example_db"
  define s1 where "s1 = emit (GetBirthdaysRange (datetime_date example_now - 1)
      (datetime_date example_now + 1) (Some (datetime_minus example_now (timedelta_hours 24))))
      (snd (utc_now b s))"
  have db: "user_data s = Some example_db" by (simp add: s_def)
  have now: "example_now = fst (utc_now b s)"
    by (simp add: b_def s_def example_today example_now_def)
  have q: "get_birthdays_range example_db (datetime_date example_now - 1)
      (datetime_date example_now + 1) (Some (datetime_minus example_now (timedelta_hours 24)))
      = [] @ (1, 730179) # [(2, 726528)]"
    by (simp add: get_birthdays_range_def example_db_def)
  have pre: "schedule_each b example_now [] 0 s1 = (Inr 0, s1)" by simp
  have today: "1 < datetime_date example_now" "datetime_date example_now < MAXORDINAL"
    by (simp_all add: example_now_def datetime_date_def MAXORDINAL_def)
  have db1: "user_data s1 \<noteq> None" by (simp add: s1_def s_def)
  have fail: "schedule_birthday b 1 730179 (Some example_now) s1
                = (Inl ValueError, try_cancel_task 1 s1)"
    using db1 unfolding b_def example_schedule_user1 by simp
  have "schedule_todays_birthdays b s = (Inl ValueError, try_cancel_task 1 s1)
        \<and> daily_loop b s = emit (LogError ValueError) (try_cancel_task 1 s1)"
    by (rule schedule_todays_birthdays_stops_at_exception
          [OF db now today q pre [unfolded s1_def] fail [unfolded s1_def], folded s1_def])
  then show ?thesis
    using q db today
    by (simp add: b_def s_def s1_def example_today example_now_def datetime_date_def
          datetime_minus_def timedelta_hours_def noon_2021_03_01_def naive_date_def
          us_per_day_def)
qed

section \<open>The stored timezone and its privacy\<close>

lemma user_data_update_fields [simp]:
  "try_cancel_task u (s\<lparr>user_data := d\<rparr>) = (try_cancel_task u s)\<lparr>user_data := d\<rparr>"
  "create_birthday_task u delta (s\<lparr>user_data := d\<rparr>)
     = (create_birthday_task u delta s)\<lparr>user_data := d\<rparr>"
  by (simp_all add: try_cancel_task_def create_birthday_task_def split: option.splits)



lemma outcome_user_data [simp]:
  "outcome (r, s\<lparr>user_data := d\<rparr>) = (r, tasks s, loop_tasks s)"
  by (simp add: outcome_def)




section \<open>The change notifier\<close>

lemma live_cong: "loop_tasks s' = loop_tasks s \<Longrightarrow> live s' h = live s h"
  by (simp add: live_def)

lemma stale_not_live_after_cancel:
  assumes "registry_inv s" "live s h" "task_user (loop_tasks s ! h) = u"
  shows "\<not> live (try_cancel_task u s) h"
  using assms unfolding registry_inv_def live_def
  by (auto simp: try_cancel_task_nth)

lemma stale_not_live_after_create:
  assumes "registry_inv s" "live s h" "task_user (loop_tasks s ! h) = u"
  shows "\<not> live (create_birthday_task u d (try_cancel_task u s)) h"
proof -
  have h: "h < length (loop_tasks s)" using assms(2) by (simp add: live_def)
  have "\<not> live (try_cancel_task u s) h" by (rule stale_not_live_after_cancel [OF assms])
  then show ?thesis using h by (simp add: live_def nth_append)
qed

lemma stale_not_live_after_schedule:
  assumes "registry_inv s" "user_data s \<noteq> None" "live s h" "task_user (loop_tasks s ! h) = u"
  shows "\<not> live (snd (schedule_birthday b u birthday now s)) h"
proof -
  have s0: "registry_inv s0 \<and> live s0 h \<and> task_user (loop_tasks s0 ! h) = u"
    if "s0 = s \<or> s0 = snd (utc_now b s)" for s0
    using that assms by (auto simp: live_def)
  show ?thesis
  proof (cases rule: schedule_birthday_shape
      [where b=b and u=u and birthday=birthday and now=now and s=s])
    case unloaded
    then show ?thesis using assms by simp
  next
    case (raised s0)
    then show ?thesis using s0 [OF raised(1)] by (simp add: stale_not_live_after_cancel)
  next
    case (skipped s0)
    then show ?thesis using s0 [OF skipped(1)] by (simp add: stale_not_live_after_cancel)
  next
    case (scheduled s0 d)
    then show ?thesis using s0 [OF scheduled(1)] by (simp add: stale_not_live_after_create)
  qed
qed

lemma notify_change_cancel:
  assumes "user_data s = Some db" "get_birthday db u = None \<or> get_privacy_birthday db u = PRIVATE"
  shows "notify_change b u s = (Inr (), try_cancel_task u s)"
  using assms by (auto simp: notify_change_def get_database_def split: option.splits)

lemma notify_change_schedule:
  assumes "user_data s = Some db" "get_birthday db u = Some birthday"
    "get_privacy_birthday db u \<noteq> PRIVATE"
  shows "notify_change b u s =
           (case fst (schedule_birthday b u birthday None s) of
              Inl e \<Rightarrow> Inl e | Inr _ \<Rightarrow> Inr (),
            snd (schedule_birthday b u birthday None s))"
  using assms
  by (simp add: notify_change_def get_database_def split: prod.splits sum.splits)

text \<open>
  What \<^verbatim>\<open>notify_change\<close> does in a state in which every live task is registered: for a
  user whose birthday is absent or whose \<open>privacy_birthday\<close> is \<open>PRIVATE\<close> it only
  cancels, and the user then has no entry in the registry and no live task; otherwise it
  is the call of \<^verbatim>\<open>schedule_birthday\<close> with the birthday read from the directory and no
  \<^verbatim>\<open>now\<close>, after which no task that was live for the user before is still live.
\<close>

lemma notify_change_when_registered:
  assumes "registry_inv s" "user_data s = Some db"
  shows "(get_birthday db u = None \<or> get_privacy_birthday db u = PRIVATE \<longrightarrow>
            notify_change b u s = (Inr (), try_cancel_task u s)
            \<and> tasks (snd (notify_change b u s)) u = None
            \<and> live_tasks (snd (notify_change b u s)) u = [])
       \<and> (\<forall>birthday. get_birthday db u = Some birthday \<and> get_privacy_birthday db u \<noteq> PRIVATE \<longrightarrow>
            snd (notify_change b u s) = snd (schedule_birthday b u birthday None s)
            \<and> fst (notify_change b u s)
                = (case fst (schedule_birthday b u birthday None s) of
                     Inl e \<Rightarrow> Inl e | Inr _ \<Rightarrow> Inr ())
            \<and> (\<forall>h. live s h \<and> task_user (loop_tasks s ! h) = u
                   \<longrightarrow> \<not> live (snd (notify_change b u s)) h))"
proof -
  have db: "user_data s \<noteq> None" using assms(2) by simp
  show ?thesis
    using notify_change_cancel [OF assms(2), of u b] no_live_after_cancel [OF assms(1), of u]
      notify_change_schedule [OF assms(2), of u _ b]
      stale_not_live_after_schedule [OF assms(1) db, of _ u b _ None]
    by (auto split: sum.splits)
qed

section \<open>At most one task per user\<close>

lemma registered_not_live_after_cancel:
  assumes "tasks s u = Some h"
  shows "\<not> live (try_cancel_task u s) h"
  using assms by (auto simp: live_def try_cancel_task_nth)

lemma registered_replaced_by_schedule:
  assumes "user_data s \<noteq> None" "tasks s u = Some h" "h < length (loop_tasks s)"
  shows "tasks (snd (schedule_birthday b u birthday now s)) u \<noteq> Some h
       \<and> \<not> live (snd (schedule_birthday b u birthday now s)) h"
proof -
  have s0: "tasks s0 u = Some h \<and> h < length (loop_tasks s0)"
    if "s0 = s \<or> s0 = snd (utc_now b s)" for s0
    using that assms by auto
  show ?thesis
  proof (cases rule: schedule_birthday_shape
      [where b=b and u=u and birthday=birthday and now=now and s=s])
    case unloaded
    then show ?thesis using assms by simp
  next
    case (raised s0)
    then show ?thesis
      using s0 [OF raised(1)] registered_not_live_after_cancel [of s0 u h] by simp
  next
    case (skipped s0)
    then show ?thesis
      using s0 [OF skipped(1)] registered_not_live_after_cancel [of s0 u h] by simp
  next
    case (scheduled s0 d)
    then show ?thesis
      using s0 [OF scheduled(1)] registered_not_live_after_cancel [of s0 u h]
      by (simp add: live_def nth_append)
  qed
qed

lemma user_data_schedule_birthday [simp]:
  "user_data (snd (schedule_birthday b u birthday now s)) = user_data s"
  by (cases rule: schedule_birthday_shape
      [where b=b and u=u and birthday=birthday and now=now and s=s]) auto

lemma fst_schedule_birthday_Some:
  assumes "user_data s' = user_data s"
  shows "fst (schedule_birthday b u birthday (Some n) s')
           = fst (schedule_birthday b u birthday (Some n) s)"
proof (cases "user_data s")
  case None
  then show ?thesis using assms by (simp add: schedule_birthday_no_database)
next
  case (Some db)
  then have "user_data s' = Some db" using assms by simp
  then show ?thesis
    using Some
    by (simp add: schedule_birthday_decision Let_def split: sum.splits)
qed

text \<open>
  In a state in which every live task is registered, each user has at most one live
  task, and this stays so after \<^verbatim>\<open>schedule_birthday\<close>, \<^verbatim>\<open>notify_change\<close> and a cancel,
  each run to its end. \<^verbatim>\<open>schedule_birthday\<close> first cancels and discards the task the
  registry holds for the user, and when a call schedules, the same call made twice in
  succession leaves exactly one live task for the user.
\<close>

lemma registered_at_most_one:
  assumes "registry_inv s"
  shows "length (live_tasks s v) \<le> 1
       \<and> length (live_tasks (snd (schedule_birthday b u birthday now s)) v) \<le> 1
       \<and> length (live_tasks (snd (notify_change b u s)) v) \<le> 1
       \<and> length (live_tasks (try_cancel_task u s) v) \<le> 1
       \<and> (\<forall>h. user_data s \<noteq> None \<and> tasks s u = Some h \<and> h < length (loop_tasks s) \<longrightarrow>
             tasks (snd (schedule_birthday b u birthday now s)) u \<noteq> Some h
             \<and> \<not> live (snd (schedule_birthday b u birthday now s)) h)
       \<and> (fst (schedule_birthday b u birthday (Some n) s) = Inr True \<longrightarrow>
             length (live_tasks
               (snd (schedule_birthday b u birthday (Some n)
                       (snd (schedule_birthday b u birthday (Some n) s)))) u) = 1)"
proof -
  note inv = assms
  define s1 where "s1 = snd (schedule_birthday b u birthday (Some n) s)"
  have inv1: "registry_inv s1"
    unfolding s1_def by (rule registry_inv_schedule_birthday [OF inv])
  have twice: "length (live_tasks (snd (schedule_birthday b u birthday (Some n) s1)) u) = 1"
    if "fst (schedule_birthday b u birthday (Some n) s) = Inr True"
  proof -
    have "fst (schedule_birthday b u birthday (Some n) s1) = Inr True"
      using that fst_schedule_birthday_Some [of s1 s b u birthday n] by (simp add: s1_def)
    then show ?thesis by (rule scheduled_one_live [OF inv1])
  qed
  show ?thesis
    using at_most_one_live [OF inv, of v]
      at_most_one_live [OF registry_inv_schedule_birthday [OF inv], of b u birthday now v]
      at_most_one_live [OF registry_inv_notify_change [OF inv], of b u v]
      at_most_one_live [OF registry_inv_try_cancel_task [OF inv], of u v]
      registered_replaced_by_schedule [of s u _ b birthday now]
      twice
    unfolding s1_def by blast
qed

section \<open>Calls of the scheduler that overlap\<close>

text \<open>The two parts of \<^verbatim>\<open>schedule_birthday\<close>, run without a pause, are the call.\<close>

lemma schedule_birthday_phases:
  assumes "user_data s = Some db"
  shows "schedule_birthday b u birthday now_arg s =
     (case schedule_birthday_begin b u now_arg s of
        (Inl e, s') \<Rightarrow> (Inl e, s')
      | (Inr now, s') \<Rightarrow> schedule_birthday_finish db u birthday now s')"
  using assms
  by (simp add: schedule_birthday_def schedule_birthday_begin_def schedule_birthday_finish_def
        get_database_def Let_def case_prod_beta)

lemma schedule_birthday_begin_loaded:
  assumes "user_data s = Some db"
  shows "schedule_birthday_begin b u now_arg s =
     (case now_arg of
        None \<Rightarrow> (Inr (fst (utc_now b s)), try_cancel_task u (snd (utc_now b s)))
      | Some n \<Rightarrow> (Inr n, try_cancel_task u s))"
  using assms
  by (simp add: schedule_birthday_begin_def get_database_def Let_def case_prod_beta
        split: option.splits)

lemma schedule_birthday_finish_decision:
  "schedule_birthday_finish db u birthday now s =
     (let timezone = (if get_privacy_timezone db u = PUBLIC
                      then (case get_timezone db u of None \<Rightarrow> UTC | Some tz \<Rightarrow> tz)
                      else UTC)
      in case datetime_ymd (date_year (datetime_date now)) (date_month birthday) (date_day birthday) of
           Inl e \<Rightarrow> (Inl e, s)
         | Inr birthday_this_year \<Rightarrow>
             let delta = datetime_diff (astimezone (localize timezone birthday_this_year) UTC) now
             in if (0 \<le> delta \<and> delta < timedelta_hours 24)
                   \<or> (delta < 0 \<and> datetime_date (astimezone now timezone)
                                       = naive_date birthday_this_year)
                then (Inr True, create_birthday_task u delta s)
                else (Inr False, s))"
  by (auto simp: schedule_birthday_finish_def Let_def split: sum.splits option.splits)

text \<open>The operations run to their end are among the reachable states.\<close>

lemma reachable_schedule_birthday:
  assumes "reachable b s cs"
  shows "reachable b (snd (schedule_birthday b u birthday now_arg s)) cs"
proof (cases "user_data s")
  case None
  then show ?thesis using assms by (simp add: schedule_birthday_no_database)
next
  case (Some db)
  obtain now s' where beg: "schedule_birthday_begin b u now_arg s = (Inr now, s')"
    using schedule_birthday_begin_loaded [OF Some, of b u now_arg]
    by (cases now_arg) simp_all
  define c where "c = \<lparr>call_user = u, call_birthday = birthday, call_now = now\<rparr>"
  have db': "user_data s' = Some db"
    using beg Some schedule_birthday_begin_loaded [OF Some, of b u now_arg]
    by (cases now_arg) auto
  have "reachable b s' (c # cs)"
    unfolding c_def by (rule reachable.begins [OF assms beg])
  from reachable.finishes [OF this _ db', of c]
  have "reachable b (snd (schedule_birthday_finish db u birthday now s')) cs"
    by (simp add: c_def)
  then show ?thesis
    by (simp add: schedule_birthday_phases [OF Some] beg)
qed

lemma reachable_notify_change:
  assumes "reachable b s cs"
  shows "reachable b (snd (notify_change b u s)) cs"
proof -
  have "snd (notify_change b u s) = s \<or> snd (notify_change b u s) = try_cancel_task u s
     \<or> (\<exists>birthday. snd (notify_change b u s) = snd (schedule_birthday b u birthday None s))"
    by (auto simp: notify_change_def Let_def split: sum.splits option.splits prod.splits)
       (metis snd_conv)+
  then show ?thesis
    using assms reachable.cancel [OF assms, of u] reachable_schedule_birthday [OF assms, of u _ None]
    by auto
qed

text \<open>The two overlapping calls of the concrete deployment.\<close>

lemma example_finish_user2:
  assumes "k = 0 \<or> k = 1000000"
  shows "schedule_birthday_finish example_db 2 726528 \<lparr>wall = noon_2021_03_01 + k, utcoffset = 0\<rparr> s
     = (Inr True, create_birthday_task 2 (timedelta_hours 12 - k) s)"
proof -
  have d: "datetime_date \<lparr>wall = noon_2021_03_01 + k, utcoffset = 0\<rparr> = 737850"
    using assms by (auto simp: datetime_date_def naive_date_def noon_2021_03_01_def us_per_day_def)
  have tz: "get_privacy_timezone example_db 2 = PUBLIC" "get_timezone example_db 2 = None"
    by (simp_all add: example_db_def)
  have delta: "datetime_diff (astimezone (localize UTC (737851 * us_per_day)) UTC)
                 \<lparr>wall = noon_2021_03_01 + k, utcoffset = 0\<rparr> = timedelta_hours 12 - k"
    by (simp add: UTC_def localize_def astimezone_def datetime_diff_def instant_def
          timedelta_hours_def noon_2021_03_01_def us_per_day_def Let_def)
  have range: "0 \<le> timedelta_hours 12 - k" "timedelta_hours 12 - k < timedelta_hours 24"
    using assms by (auto simp: timedelta_hours_def)
  show ?thesis
    unfolding schedule_birthday_finish_decision d
    using range
    by (simp add: tz date_year_def date_month_def date_day_def ord2ymd_737850 ord2ymd_726528
          datetime_ymd_2021_03_02 delta Let_def)
qed

lemma example_begin_user2:
  assumes "t = 0 \<or> t = 1"
  shows "schedule_birthday_begin (example_bot UTC noon_2021_03_01) 2 None
           ((example_cog example_db)\<lparr>ticks := t\<rparr>)
     = (Inr \<lparr>wall = noon_2021_03_01 + int t * 1000000, utcoffset = 0\<rparr>,
        (example_cog example_db)\<lparr>ticks := t + 1\<rparr>)"
  by (simp add: schedule_birthday_begin_def get_database_def utc_now_def datetime_now_def
        localize_def UTC_def Let_def try_cancel_task_def)

lemma example_cog_ticks: "(example_cog db)\<lparr>ticks := 0\<rparr> = example_cog db"
  by (simp add: example_cog_def)

lemma race_state_eq:
  "race_state =
     create_birthday_task 2 (timedelta_hours 12 - 1000000)
       (create_birthday_task 2 (timedelta_hours 12) ((example_cog example_db)\<lparr>ticks := 2\<rparr>))"
proof -
  have b1: "schedule_birthday_begin (example_bot UTC noon_2021_03_01) 2 None (example_cog example_db)
      = (Inr \<lparr>wall = noon_2021_03_01, utcoffset = 0\<rparr>, (example_cog example_db)\<lparr>ticks := 1\<rparr>)"
    using example_begin_user2 [of 0] by (simp add: example_cog_ticks)
  have b2: "schedule_birthday_begin (example_bot UTC noon_2021_03_01) 2 None
        ((example_cog example_db)\<lparr>ticks := 1\<rparr>)
      = (Inr \<lparr>wall = noon_2021_03_01 + 1000000, utcoffset = 0\<rparr>,
         (example_cog example_db)\<lparr>ticks := 2\<rparr>)"
    using example_begin_user2 [of 1] by simp
  show ?thesis
    unfolding race_state_def Let_def b1 prod.case sum.case b2
    using example_finish_user2 [of 0] example_finish_user2 [of 1000000]
    by simp
qed

lemma race_state_fields:
  "tasks race_state 2 = Some 1"
  "loop_tasks race_state =
     [\<lparr>task_user = 2, task_delta = timedelta_hours 12, task_state = PENDING\<rparr>,
      \<lparr>task_user = 2, task_delta = timedelta_hours 12 - 1000000, task_state = PENDING\<rparr>]"
  "user_data race_state = Some example_db"
  by (simp_all add: race_state_eq)

lemma race_state_reachable: "reachable (example_bot UTC noon_2021_03_01) race_state []"
proof -
  define b where "b = example_bot UTC noon_2021_03_01"
  define s0 where "s0 = example_cog example_db"
  define n1 where "n1 = \<lparr>wall = noon_2021_03_01, utcoffset = 0\<rparr>"
  define n2 where "n2 = \<lparr>wall = noon_2021_03_01 + 1000000, utcoffset = 0\<rparr>"
  define c1 where "c1 = \<lparr>call_user = 2, call_birthday = 726528, call_now = n1\<rparr>"
  define c2 where "c2 = \<lparr>call_user = 2, call_birthday = 726528, call_now = n2\<rparr>"
  define s1 where "s1 = s0\<lparr>ticks := 1\<rparr>"
  define s2 where "s2 = s0\<lparr>ticks := 2\<rparr>"
  define s3 where "s3 = create_birthday_task 2 (timedelta_hours 12) s2"
  define s4 where "s4 = create_birthday_task 2 (timedelta_hours 12 - 1000000) s3"
  have db: "user_data s2 = Some example_db" "user_data s3 = Some example_db"
    by (simp_all add: s0_def s2_def s3_def)
  have ne: "c1 \<noteq> c2"
    by (simp add: c1_def c2_def n1_def n2_def)
  have r0: "reachable b s0 []"
    by (rule reachable.init) (simp_all add: s0_def)
  have "schedule_birthday_begin b 2 None s0 = (Inr n1, s1)"
    using example_begin_user2 [of 0] by (simp add: example_cog_ticks b_def s0_def s1_def n1_def)
  from reachable.begins [OF r0 this, of 726528]
  have r1: "reachable b s1 [c1]" by (simp add: c1_def)
  have "schedule_birthday_begin b 2 None s1 = (Inr n2, s2)"
    using example_begin_user2 [of 1] by (simp add: b_def s0_def s1_def s2_def n2_def)
  from reachable.begins [OF r1 this, of 726528]
  have r2: "reachable b s2 [c2, c1]" by (simp add: c2_def)
  have f1: "schedule_birthday_finish example_db 2 726528 n1 s2 = (Inr True, s3)"
    using example_finish_user2 [of 0 s2] by (simp add: n1_def s3_def)
  have f2: "schedule_birthday_finish example_db 2 726528 n2 s3 = (Inr True, s4)"
    using example_finish_user2 [of 1000000 s3] by (simp add: n2_def s4_def)
  from reachable.finishes [OF r2 _ db(1), of c1]
  have r3: "reachable b s3 [c2]"
    using ne by (simp add: c1_def f1)
  from reachable.finishes [OF r3 _ db(2), of c2]
  have "reachable b s4 []"
    by (simp add: c2_def f2)
  then show ?thesis
    by (simp add: race_state_eq s4_def s3_def s2_def s0_def b_def)
qed

text \<open>
  C2: at most one task per user exists at any time. In the concrete deployment two
  calls of \<^verbatim>\<open>notify_change\<close> for user 2 overlap: the \<^verbatim>\<open>schedule_birthday\<close> of each
  cancels before the other has created its task, and \<^verbatim>\<open>_create_birthday_task\<close> of the
  second overwrites the entry of the first without cancelling it. The state is
  reachable, both tasks are live for user 2, and the registry holds only task 1.
\<close>

theorem overlapping_calls_leave_two_live_tasks:
  "reachable (example_bot UTC noon_2021_03_01) race_state []
   \<and> live_tasks race_state 2 = [0, 1]
   \<and> tasks race_state 2 = Some 1"
proof -
  have "live_tasks race_state 2 = [0, 1]"
    by (simp add: live_tasks_def race_state_fields upt_rec)
  then show ?thesis
    using race_state_reachable race_state_fields(1) by blast
qed

text \<open>
  C6: \<^verbatim>\<open>notify_change\<close> for a user whose birthday is private leaves no live task for that
  user, whatever the state before. After the two overlapping calls above, user 2 makes
  their birthday private: \<^verbatim>\<open>notify_change\<close> cancels task 1, which the registry holds,
  and returns; task 0 stays pending.
\<close>

theorem notify_change_misses_unregistered_task:
  "get_privacy_birthday private_db 2 = PRIVATE
   \<and> reachable (example_bot UTC noon_2021_03_01) (race_state\<lparr>user_data := Some private_db\<rparr>) []
   \<and> fst (notify_change (example_bot UTC noon_2021_03_01) 2
             (race_state\<lparr>user_data := Some private_db\<rparr>)) = Inr ()
   \<and> live_tasks (snd (notify_change (example_bot UTC noon_2021_03_01) 2
                         (race_state\<lparr>user_data := Some private_db\<rparr>))) 2 = [0]"
proof -
  define s where "s = race_state\<lparr>user_data := Some private_db\<rparr>"
  have p: "get_privacy_birthday private_db 2 = PRIVATE"
    by (simp add: private_db_def)
  have r: "reachable (example_bot UTC noon_2021_03_01) s []"
    unfolding s_def by (rule reachable.directory [OF race_state_reachable])
  have db: "user_data s = Some private_db" by (simp add: s_def)
  have n: "notify_change (example_bot UTC noon_2021_03_01) 2 s = (Inr (), try_cancel_task 2 s)"
    using notify_change_cancel [OF db, of 2] p by simp
  have "live_tasks (try_cancel_task 2 s) 2 = [0]"
    by (simp add: live_tasks_def try_cancel_task_def cancel_def s_def race_state_fields upt_rec)
  then show ?thesis
    using p r n unfolding s_def by simp
qed

section \<open>One reading of the clock per rescan\<close>

lemma ticks_schedule_birthday_Some [simp]:
  "ticks (snd (schedule_birthday b u birthday (Some n) s)) = ticks s"
proof (cases "user_data s")
  case None
  then show ?thesis by (simp add: schedule_birthday_no_database)
next
  case (Some db)
  then show ?thesis
    by (simp add: schedule_birthday_decision Let_def split: sum.splits)
qed

lemma effects_schedule_birthday_Some [simp]:
  "effects (snd (schedule_birthday b u birthday (Some n) s)) = effects s"
proof (cases "user_data s")
  case None
  then show ?thesis by (simp add: schedule_birthday_no_database)
next
  case (Some db)
  then show ?thesis
    by (simp add: schedule_birthday_decision Let_def split: sum.splits)
qed

lemma schedule_each_Cons:
  assumes "schedule_birthday b u birthday (Some now) s = (r, s')"
  shows "schedule_each b now ((u, birthday) # xs) c s =
     (case r of Inl e \<Rightarrow> (Inl e, s')
      | Inr t \<Rightarrow> schedule_each b now xs (if t then c + 1 else c) s')"
  using assms by (simp split: sum.splits)

lemma schedule_each_frame_all:
  "ticks (snd (schedule_each b now xs c s)) = ticks s
   \<and> effects (snd (schedule_each b now xs c s)) = effects s
   \<and> user_data (snd (schedule_each b now xs c s)) = user_data s"
proof (induction xs arbitrary: c s)
  case Nil
  show ?case by simp
next
  case (Cons x xs)
  obtain u birthday where x: "x = (u, birthday)" by (cases x)
  obtain r s' where r: "schedule_birthday b u birthday (Some now) s = (r, s')"
    by (cases "schedule_birthday b u birthday (Some now) s")
  have s': "ticks s' = ticks s" "effects s' = effects s" "user_data s' = user_data s"
    using ticks_schedule_birthday_Some [of b u birthday now s]
      effects_schedule_birthday_Some [of b u birthday now s]
      user_data_schedule_birthday [of b u birthday "Some now" s] r by simp_all
  show ?case
    unfolding x schedule_each_Cons [OF r] using Cons.IH [of _ s'] s' by (cases r) simp_all
qed

lemma schedule_each_frame [simp]:
  "ticks (snd (schedule_each b now xs c s)) = ticks s"
  "effects (snd (schedule_each b now xs c s)) = effects s"
  "user_data (snd (schedule_each b now xs c s)) = user_data s"
  using schedule_each_frame_all [of b now xs c s] by simp_all

text \<open>
  One pass of the rescan reads the clock once, asks the directory once, for the dates
  from the day before to the day after the date of that reading and for notifications
  older than 24 hours before it, and decides every returned user with that reading.
  The date of the reading is the one the host's own zone gives it. (When the day before
  or the day after that date is not a date, the pass raises \<^verbatim>\<open>OverflowError\<close> instead.)
\<close>

lemma rescan_single_now:
  assumes "user_data s = Some db"
    and "1 < datetime_date (fst (utc_now b s))"
        "datetime_date (fst (utc_now b s)) < MAXORDINAL"
  shows "let now = fst (utc_now b s);
             today = datetime_date now;
             max_last = Some (datetime_minus now (timedelta_hours 24));
             returned = get_birthdays_range db (today - 1) (today + 1) max_last;
             s1 = emit (GetBirthdaysRange (today - 1) (today + 1) max_last) (snd (utc_now b s));
             s' = snd (schedule_todays_birthdays b s)
         in ticks s' = ticks s + 1
            \<and> queries (new_effects s s') = [(today - 1, today + 1, max_last)]
            \<and> outcome (case fst (schedule_todays_birthdays b s) of
                          Inl e \<Rightarrow> Inl e | Inr _ \<Rightarrow> Inr True, s')
                = outcome (case fst (schedule_each b now returned 0 s1) of
                             Inl e \<Rightarrow> Inl e | Inr _ \<Rightarrow> Inr True,
                           snd (schedule_each b now returned 0 s1))"
proof -
  define now where "now = fst (utc_now b s)"
  define today where "today = datetime_date now"
  define max_last where "max_last = Some (datetime_minus now (timedelta_hours 24))"
  define returned where "returned = get_birthdays_range db (today - 1) (today + 1) max_last"
  define s1 where
    "s1 = emit (GetBirthdaysRange (today - 1) (today + 1) max_last) (snd (utc_now b s))"
  obtain r s2 where r: "schedule_each b now returned 0 s1 = (r, s2)"
    by (cases "schedule_each b now returned 0 s1")
  have s2: "ticks s2 = ticks s1" "effects s2 = effects s1"
    using schedule_each_frame [of b now returned 0 s1] r by simp_all
  have "schedule_todays_birthdays b s =
          (case r of Inl e \<Rightarrow> (Inl e, s2) | Inr c \<Rightarrow> (Inr (), emit (LogScheduled c) s2))"
    using r
    by (simp add: schedule_todays_birthdays_unfold [OF assms(1) refl assms(2,3)] Let_def
          now_def today_def max_last_def returned_def s1_def)
  then show ?thesis
    using r s2
    unfolding Let_def now_def [symmetric] today_def [symmetric] max_last_def [symmetric]
      returned_def [symmetric] s1_def [symmetric]
    by (cases r) (simp_all add: s1_def new_effects_def outcome_def)
qed

section \<open>Birthdays on a leap day\<close>

text \<open>
  The decision of \<^verbatim>\<open>schedule_birthday\<close> for a birthday whose month and day exist in the
  year of \<^verbatim>\<open>now\<close>: with \<open>delta\<close> the time from \<^verbatim>\<open>now\<close> to the midnight of
  \<open>birthday_this_year\<close> localized in the effective timezone, the call schedules a task
  that waits \<open>delta\<close> exactly when \<open>0 \<le> delta < 24h\<close>, or \<open>delta < 0\<close> and the date of
  \<^verbatim>\<open>now\<close> in the effective timezone is the date of \<open>birthday_this_year\<close>; in every other
  case it returns \<open>False\<close> and the user is left without an entry in the registry.
\<close>

lemma schedule_birthday_valid_date:
  assumes "user_data s = Some db"
    and "datetime_ymd (date_year (datetime_date now)) (date_month birthday) (date_day birthday)
           = Inr birthday_this_year"
    and "timezone = (if get_privacy_timezone db u = PUBLIC
                     then (case get_timezone db u of None \<Rightarrow> UTC | Some tz \<Rightarrow> tz) else UTC)"
    and "delta = datetime_diff (astimezone (localize timezone birthday_this_year) UTC) now"
  shows "schedule_birthday b u birthday (Some now) s =
           (if (0 \<le> delta \<and> delta < timedelta_hours 24)
               \<or> (delta < 0
                   \<and> datetime_date (astimezone now timezone) = naive_date birthday_this_year)
            then (Inr True, create_birthday_task u delta (try_cancel_task u s))
            else (Inr False, try_cancel_task u s))
       \<and> tasks (create_birthday_task u delta (try_cancel_task u s)) u
           = Some (length (loop_tasks s))
       \<and> task_delta (loop_tasks (create_birthday_task u delta (try_cancel_task u s))
                       ! length (loop_tasks s)) = delta
       \<and> tasks (try_cancel_task u s) u = None"
proof -
  have "schedule_birthday b u birthday (Some now) s =
           (if (0 \<le> delta \<and> delta < timedelta_hours 24)
               \<or> (delta < 0
                   \<and> datetime_date (astimezone now timezone) = naive_date birthday_this_year)
            then (Inr True, create_birthday_task u delta (try_cancel_task u s))
            else (Inr False, try_cancel_task u s))"
    unfolding schedule_birthday_decision [OF assms(1)] assms(2) Let_def
      assms(3) [symmetric] sum.case assms(4) [symmetric] by simp
  moreover have "task_delta (loop_tasks (create_birthday_task u delta (try_cancel_task u s))
                       ! length (loop_tasks s)) = delta"
    by (simp add: nth_append)
  ultimately show ?thesis by simp
qed

text \<open>
  C1: for every birthday, timezone and \<^verbatim>\<open>now\<close>, \<^verbatim>\<open>schedule_birthday\<close> returns true or
  false. For the birthday 2000-02-29 and \<^verbatim>\<open>now\<close> = 2021-03-01T12:00 UTC it does
  neither: \<^verbatim>\<open>dt.datetime(2021, 2, 29)\<close> raises \<^verbatim>\<open>ValueError\<close>, after the cancel of the
  user's task.
\<close>

theorem leap_day_birthday_raises:
  "date_month 730179 = 2 \<and> date_day 730179 = 29
   \<and> date_year (datetime_date example_now) = 2021
   \<and> schedule_birthday (example_bot UTC noon_2021_03_01) 1 730179 (Some example_now)
        (example_cog example_db)
      = (Inl ValueError, try_cancel_task 1 (example_cog example_db))"
proof -
  have "schedule_birthday (example_bot UTC noon_2021_03_01) 1 730179 (Some example_now)
        (example_cog example_db)
      = (Inl ValueError, try_cancel_task 1 (example_cog example_db))"
    unfolding example_schedule_user1 by simp
  moreover have "date_month 730179 = 2" "date_day 730179 = 29"
    "date_year (datetime_date example_now) = 2021"
    by (simp_all add: date_month_def date_day_def date_year_def
        ord2ymd_example ord2ymd_737850 datetime_date_def example_now_def)
  ultimately show ?thesis by blast
qed

section \<open>The window of the rescan\<close>

text \<open>
  On a host whose zone is UTC the reading of \<^verbatim>\<open>utc_now\<close> is the instant of the clock and
  its date is the UTC date.
\<close>

lemma utc_now_utc_host:
  assumes "localzone b = UTC"
  shows "instant (fst (utc_now b s)) = clock b (ticks s)
       \<and> datetime_date (fst (utc_now b s)) = naive_date (clock b (ticks s))"
  using assms
  by (simp add: utc_now_def datetime_now_def localize_def UTC_def instant_def datetime_date_def
        Let_def)

lemma date_four_am_local:
  "utc_now pacific_bot (example_cog db)
     = (\<lparr>wall = 737850 * 86400000000 + 20 * 3600000000, utcoffset = - 28800000000\<rparr>,
        (example_cog db)\<lparr>ticks := 1\<rparr>)"
  by (simp add: utc_now_def datetime_now_def localize_def pacific_bot_def fixed_offset_def
        four_am_2021_03_02_def timedelta_hours_def Let_def)

text \<open>
  C7: the rescan asks the directory for the three calendar days around today in UTC. On
  a host eight hours behind UTC, at 2021-03-02T04:00 UTC, \<^verbatim>\<open>utc_now().date()\<close> is the
  host's own date, 2021-03-01 (ordinal 737850): the pass asks for 737849 to 737851,
  that is 02-28 to 03-02, while the UTC date is 2021-03-02 (ordinal 737851) and the
  three days around it are 03-01 to 03-03.
\<close>

theorem rescan_window_is_host_local:
  "queries (effects (snd (schedule_todays_birthdays pacific_bot (example_cog example_db))))
     = [(737849, 737851,
         Some \<lparr>wall = 737849 * 86400000000 + 20 * 3600000000, utcoffset = - 28800000000\<rparr>)]
   \<and> naive_date (clock pacific_bot 0) = 737851"
proof -
  have db: "user_data (example_cog example_db) = Some example_db" by simp
  have d: "naive_date (clock pacific_bot 0) = 737851"
    by (simp add: pacific_bot_def four_am_2021_03_02_def naive_date_def us_per_day_def)
  have today: "1 < datetime_date (fst (utc_now pacific_bot (example_cog example_db)))"
    "datetime_date (fst (utc_now pacific_bot (example_cog example_db))) < MAXORDINAL"
    by (simp_all add: date_four_am_local datetime_date_def naive_date_def us_per_day_def
          MAXORDINAL_def)
  show ?thesis
    using rescan_single_now [OF db today] d
    by (simp add: date_four_am_local Let_def new_effects_def datetime_date_def naive_date_def
          us_per_day_def datetime_minus_def timedelta_hours_def)
qed

end
